theory Spec2Isabelle
  imports Complex_Main
begin

section \<open>Values of the report\<close>

text \<open>
  The script \<^verbatim>\<open>scripts/summarize_slither.py\<close> works on whatever \<^verbatim>\<open>json.load\<close> returns and
  on the dictionaries it builds from it. A value is \<^verbatim>\<open>None\<close>, a bool, an int, a float, a
  string, a list or a dict. Floats are the finite ones, as rationals: only their being zero
  and their equality with other numbers is ever looked at. A dict is the list of its items
  in insertion order. A character stands for one code point, of the first 256.
\<close>

datatype json =
    JNull
  | JBool bool
  | JInt int
  | JFloat rat
  | JStr string
  | JList "json list"
  | JDict "(json \<times> json) list"

datatype error = AttributeError | TypeError | ValueError | JSONDecodeError

text \<open>Truth value of an object, as \<^verbatim>\<open>or\<close> and \<^verbatim>\<open>if\<close> test it.\<close>

fun truthy :: "json \<Rightarrow> bool" where
  "truthy JNull = False"
| "truthy (JBool b) = b"
| "truthy (JInt i) = (i \<noteq> 0)"
| "truthy (JFloat r) = (r \<noteq> 0)"
| "truthy (JStr s) = (s \<noteq> [])"
| "truthy (JList xs) = (xs \<noteq> [])"
| "truthy (JDict kvs) = (kvs \<noteq> [])"

definition py_or :: "json \<Rightarrow> json \<Rightarrow> json" where
  "py_or x y = (if truthy x then x else y)"

text \<open>Lists and dicts cannot be keys of a dict: hashing them raises \<^verbatim>\<open>TypeError\<close>.\<close>

fun hashable :: "json \<Rightarrow> bool" where
  "hashable (JList xs) = False"
| "hashable (JDict kvs) = False"
| "hashable v = True"

text \<open>
  Two keys are the same key when they are equal in Python: \<^verbatim>\<open>True\<close>, \<^verbatim>\<open>1\<close> and \<^verbatim>\<open>1.0\<close>
  are one key. \<open>key_norm\<close> sends every number to its value.
\<close>

fun key_norm :: "json \<Rightarrow> json" where
  "key_norm (JBool b) = JFloat (if b then 1 else 0)"
| "key_norm (JInt i) = JFloat (of_int i)"
| "key_norm v = v"

definition py_eq :: "json \<Rightarrow> json \<Rightarrow> bool" where
  "py_eq a b = (key_norm a = key_norm b)"

text \<open>
  Dicts, \<^verbatim>\<open>Counter\<close>s and \<^verbatim>\<open>defaultdict\<close>s: lookup finds the first item with that key,
  assignment replaces the value of an existing key where it stands (the key object stays
  the old one) and appends a new key at the end.
\<close>

fun dget :: "json \<Rightarrow> (json \<times> 'a) list \<Rightarrow> 'a option" where
  "dget k [] = None"
| "dget k ((k', v) # kvs) = (if py_eq k k' then Some v else dget k kvs)"

fun dset :: "json \<Rightarrow> 'a \<Rightarrow> (json \<times> 'a) list \<Rightarrow> (json \<times> 'a) list" where
  "dset k v [] = [(k, v)]"
| "dset k v ((k', v') # kvs) = (if py_eq k k' then (k', v) # kvs else (k', v') # dset k v kvs)"

text \<open>\<^verbatim>\<open>d.get(k)\<close>: \<^verbatim>\<open>None\<close> when the key is missing.\<close>

definition py_get :: "string \<Rightarrow> (json \<times> json) list \<Rightarrow> json" where
  "py_get k d = (case dget (JStr k) d of None \<Rightarrow> JNull | Some v \<Rightarrow> v)"

text \<open>\<^verbatim>\<open>d.get(k, '')\<close>.\<close>

definition py_get_str :: "string \<Rightarrow> (json \<times> json) list \<Rightarrow> json" where
  "py_get_str k d = (case dget (JStr k) d of None \<Rightarrow> JStr [] | Some v \<Rightarrow> v)"

text \<open>Slices \<^verbatim>\<open>xs[:k]\<close> and \<^verbatim>\<open>xs[k:]\<close>: a negative bound counts from the end, and both clip.\<close>

definition slice_bound :: "int \<Rightarrow> 'a list \<Rightarrow> nat" where
  "slice_bound k xs =
     (let n = int (length xs) in nat (if k < 0 then max 0 (n + k) else min k n))"

definition slice_to :: "int \<Rightarrow> 'a list \<Rightarrow> 'a list" where
  "slice_to k xs = take (slice_bound k xs) xs"

definition slice_from :: "int \<Rightarrow> 'a list \<Rightarrow> 'a list" where
  "slice_from k xs = drop (slice_bound k xs) xs"

section \<open>Summary of a list of lines\<close>

fun summarize_lines :: "json \<Rightarrow> json" where
  "summarize_lines (JList lines) =
     (let n = length lines in
      if n \<le> 10 then JDict [(JStr ''count'', JInt (int n)), (JStr ''lines_preview'', JList lines)]
      else JDict [(JStr ''count'', JInt (int n)),
                  (JStr ''first'', JList (slice_to 5 lines)),
                  (JStr ''last'', JList (slice_from (- 5) lines))])"
| "summarize_lines lines = lines"

text \<open>Reading a record: its field names in order, and the value of a field.\<close>

fun keys :: "json \<Rightarrow> json list" where
  "keys (JDict d) = map fst d"
| "keys v = []"

fun field :: "string \<Rightarrow> json \<Rightarrow> json option" where
  "field k (JDict d) = dget (JStr k) d"
| "field k v = None"

fun is_list :: "json \<Rightarrow> bool" where
  "is_list (JList xs) = True"
| "is_list v = False"

fun is_dict :: "json \<Rightarrow> bool" where
  "is_dict (JDict d) = True"
| "is_dict v = False"

section \<open>Loader\<close>

text \<open>
  Lines 30 to 32. \<^verbatim>\<open>data.get\<close> exists on a dict only. The result is the pair of
  \<^verbatim>\<open>results\<close> and \<^verbatim>\<open>detectors\<close>.
\<close>

definition load_detectors :: "json \<Rightarrow> error + (json \<times> json)" where
  "load_detectors data =
     (case data of
        JDict d \<Rightarrow>
          (let results = py_or (py_get ''results'' d) (JDict []) in
           Inr (results, (case results of JDict r \<Rightarrow> py_get ''detectors'' r | _ \<Rightarrow> results)))
      | _ \<Rightarrow> Inl AttributeError)"

text \<open>
  What a \<^verbatim>\<open>for\<close> loop runs over: the elements of a list, the keys of a dict, the
  characters of a string; anything else is not iterable.
\<close>

fun py_iter :: "json \<Rightarrow> error + json list" where
  "py_iter (JList xs) = Inr xs"
| "py_iter (JDict kvs) = Inr (map fst kvs)"
| "py_iter (JStr s) = Inr (map (\<lambda>c. JStr [c]) s)"
| "py_iter v = Inl TypeError"

text \<open>
  \<^verbatim>\<open>dict(x)\<close>: a copy of a dict; from a list, a dict of its elements, each of which has to
  be a sequence of two objects, the key and the value; from a string, which yields
  sequences of one character, the empty dict or \<^verbatim>\<open>ValueError\<close>.
\<close>

fun pair_of_item :: "json \<Rightarrow> error + (json \<times> json)" where
  "pair_of_item (JList [k, v]) = Inr (k, v)"
| "pair_of_item (JList xs) = Inl ValueError"
| "pair_of_item (JStr [a, b]) = Inr (JStr [a], JStr [b])"
| "pair_of_item (JStr s) = Inl ValueError"
| "pair_of_item (JDict [(k1, v1), (k2, v2)]) = Inr (k1, k2)"
| "pair_of_item (JDict kvs) = Inl ValueError"
| "pair_of_item v = Inl TypeError"

fun dict_of_pairs :: "(json \<times> json) list \<Rightarrow> json list \<Rightarrow> error + (json \<times> json) list" where
  "dict_of_pairs acc [] = Inr acc"
| "dict_of_pairs acc (x # xs) =
     (case pair_of_item x of
        Inl err \<Rightarrow> Inl err
      | Inr (k, v) \<Rightarrow> if hashable k then dict_of_pairs (dset k v acc) xs else Inl TypeError)"

fun py_dict :: "json \<Rightarrow> error + (json \<times> json) list" where
  "py_dict (JDict d) = Inr d"
| "py_dict (JList xs) = dict_of_pairs [] xs"
| "py_dict (JStr s) = (if s = [] then Inr [] else Inl ValueError)"
| "py_dict v = Inl TypeError"

section \<open>Aggregator\<close>

text \<open>Lines 75 to 81, on the copy of an element.\<close>

definition trim_source_mapping :: "(json \<times> json) list \<Rightarrow> (json \<times> json) list" where
  "trim_source_mapping e_copy =
     (case py_get ''source_mapping'' e_copy of
        JDict sm \<Rightarrow>
          (let lines = py_get ''lines'' sm in
           if lines \<noteq> JNull
           then dset (JStr ''source_mapping'')
                  (JDict (dset (JStr ''lines'') (summarize_lines lines) sm)) e_copy
           else e_copy)
      | _ \<Rightarrow> e_copy)"

text \<open>Lines 83 to 95: the source mapping of the parent, one level down.\<close>

definition trim_parent :: "(json \<times> json) list \<Rightarrow> (json \<times> json) list" where
  "trim_parent e_copy =
     (case py_or (py_get ''type_specific_fields'' e_copy) (JDict []) of
        JDict tsf \<Rightarrow>
          (case py_get ''parent'' tsf of
             JDict parent \<Rightarrow>
               (case py_get ''source_mapping'' parent of
                  JDict psm \<Rightarrow>
                    if dget (JStr ''lines'') psm \<noteq> None
                    then (let psm' = dset (JStr ''lines'') (summarize_lines (py_get ''lines'' psm)) psm;
                              parent' = dset (JStr ''source_mapping'') (JDict psm') parent;
                              tsf' = dset (JStr ''parent'') (JDict parent') tsf
                          in dset (JStr ''type_specific_fields'') (JDict tsf') e_copy)
                    else e_copy
                | _ \<Rightarrow> e_copy)
           | _ \<Rightarrow> e_copy)
      | _ \<Rightarrow> e_copy)"

definition trim_element :: "json \<Rightarrow> error + json" where
  "trim_element e =
     (case py_dict e of
        Inl err \<Rightarrow> Inl err
      | Inr e_copy \<Rightarrow> Inr (JDict (trim_parent (trim_source_mapping e_copy))))"

text \<open>The loop of lines 73 to 96; the first argument is \<^verbatim>\<open>new_elems\<close>.\<close>

fun trim_elements :: "json list \<Rightarrow> json list \<Rightarrow> error + json list" where
  "trim_elements new_elems [] = Inr new_elems"
| "trim_elements new_elems (e # es) =
     (case trim_element e of
        Inl err \<Rightarrow> Inl err
      | Inr e_copy \<Rightarrow> trim_elements (new_elems @ [e_copy]) es)"

text \<open>Lines 70 to 97: the trimmed copy of a finding.\<close>

definition trim_detector :: "(json \<times> json) list \<Rightarrow> error + json" where
  "trim_detector det =
     (let elems = py_or (py_get ''elements'' det) (JList []) in
      case py_iter elems of
        Inl err \<Rightarrow> Inl err
      | Inr es \<Rightarrow>
          (case trim_elements [] es of
             Inl err \<Rightarrow> Inl err
           | Inr new_elems \<Rightarrow> Inr (JDict (dset (JStr ''elements'') (JList new_elems) det))))"

record agg =
  counts :: "(json \<times> nat) list"
  impact_counts :: "(json \<times> (json \<times> nat) list) list"
  confidence_counts :: "(json \<times> (json \<times> nat) list) list"
  top_examples :: "(json \<times> json list) list"
  trimmed_detectors :: "json list"

definition init_agg :: agg where
  "init_agg = \<lparr>counts = [], impact_counts = [], confidence_counts = [], top_examples = [],
               trimmed_detectors = []\<rparr>"

text \<open>\<^verbatim>\<open>c[k] += 1\<close> on a \<^verbatim>\<open>Counter\<close>: a missing key counts as 0.\<close>

definition counter_incr :: "json \<Rightarrow> (json \<times> nat) list \<Rightarrow> (json \<times> nat) list" where
  "counter_incr k c = dset k ((case dget k c of None \<Rightarrow> 0 | Some n \<Rightarrow> n) + 1) c"

text \<open>\<^verbatim>\<open>t[check][v] += 1\<close> on a \<^verbatim>\<open>defaultdict(Counter)\<close>.\<close>

definition table_incr ::
  "json \<Rightarrow> json \<Rightarrow> (json \<times> (json \<times> nat) list) list \<Rightarrow> (json \<times> (json \<times> nat) list) list" where
  "table_incr check v t =
     dset check (counter_incr v (case dget check t of None \<Rightarrow> [] | Some c \<Rightarrow> c)) t"

text \<open>Lines 66 and 67 on a \<^verbatim>\<open>defaultdict(list)\<close>: reading the entry creates it.\<close>

definition store_example :: "json \<Rightarrow> json \<Rightarrow> (json \<times> json list) list \<Rightarrow> (json \<times> json list) list" where
  "store_example check det t =
     (let exs = (case dget check t of None \<Rightarrow> [] | Some xs \<Rightarrow> xs) in
      dset check (if length exs < 3 then exs @ [det] else exs) t)"

text \<open>Lines 58, 60 and 61.\<close>

definition check_of :: "(json \<times> json) list \<Rightarrow> json" where
  "check_of d = py_or (py_get ''check'' d) (JStr ''unknown'')"

definition impact_of :: "(json \<times> json) list \<Rightarrow> json" where
  "impact_of d = py_or (py_get ''impact'' d) (JStr [])"

definition confidence_of :: "(json \<times> json) list \<Rightarrow> json" where
  "confidence_of d = py_or (py_get ''confidence'' d) (JStr [])"

text \<open>One round of the loop of lines 57 to 98.\<close>

definition process_detector :: "agg \<Rightarrow> json \<Rightarrow> error + agg" where
  "process_detector st det =
     (case det of
        JDict d \<Rightarrow>
          (let check = check_of d;
               impact = impact_of d;
               confidence = confidence_of d
           in if \<not> hashable check then Inl TypeError
              else if \<not> hashable impact then Inl TypeError
              else if \<not> hashable confidence then Inl TypeError
              else (case trim_detector d of
                      Inl err \<Rightarrow> Inl err
                    | Inr det_copy \<Rightarrow>
                        Inr \<lparr>counts = counter_incr check (counts st),
                             impact_counts = table_incr check impact (impact_counts st),
                             confidence_counts = table_incr check confidence (confidence_counts st),
                             top_examples = store_example check det (top_examples st),
                             trimmed_detectors = trimmed_detectors st @ [det_copy]\<rparr>))
      | _ \<Rightarrow> Inl AttributeError)"

fun aggregate :: "agg \<Rightarrow> json list \<Rightarrow> error + agg" where
  "aggregate st [] = Inr st"
| "aggregate st (det # dets) =
     (case process_detector st det of
        Inl err \<Rightarrow> Inl err
      | Inr st' \<Rightarrow> aggregate st' dets)"

section \<open>Emitters\<close>

text \<open>Lines 101 to 104: the trimmed document.\<close>

definition build_trimmed :: "(json \<times> json) list \<Rightarrow> json \<Rightarrow> json list \<Rightarrow> json" where
  "build_trimmed data results tds =
     (let trimmed_results = (case results of JDict r \<Rightarrow> r | _ \<Rightarrow> []) in
      JDict (dset (JStr ''results'')
               (JDict (dset (JStr ''detectors'') (JList tds) trimmed_results)) data))"

text \<open>
  \<^verbatim>\<open>Counter.most_common()\<close> is \<^verbatim>\<open>sorted(items, key=itemgetter(1), reverse=True)\<close>, a stable
  sort: items of equal count stay in insertion order. \<^verbatim>\<open>most_common(n)\<close> is its first
  \<open>n\<close> items.
\<close>

definition most_common :: "('k \<times> nat) list \<Rightarrow> ('k \<times> nat) list" where
  "most_common c = sort_key (\<lambda>kv. - int (snd kv)) c"

definition most_common_n :: "nat \<Rightarrow> ('k \<times> nat) list \<Rightarrow> ('k \<times> nat) list" where
  "most_common_n n c = take n (most_common c)"

text \<open>An int in decimal, as an f-string writes it.\<close>

definition digit_char :: "nat \<Rightarrow> char" where
  "digit_char d = char_of (48 + d)"

function show_nat :: "nat \<Rightarrow> string" where
  "show_nat n = (if n < 10 then [digit_char n] else show_nat (n div 10) @ [digit_char (n mod 10)])"
  by pat_completeness auto
termination
  by (relation "measure id") auto

text \<open>
  An object inside an f-string: a string stands for itself; any other object is written by
  \<^verbatim>\<open>repr\<close>, the interpreter's own, a parameter here.
\<close>

definition fmt :: "(json \<Rightarrow> string) \<Rightarrow> json \<Rightarrow> string" where
  "fmt repr v = (case v of JStr s \<Rightarrow> s | _ \<Rightarrow> repr v)"

definition newline :: string where
  "newline = [CHR 0x0A]"

definition dquote :: string where
  "dquote = [CHR 0x22]"

text \<open>
  Lines 113 and 114: \<^verbatim>\<open>t[check].most_common(1)[0][0] if t[check] else ''\<close> on a
  \<^verbatim>\<open>defaultdict(Counter)\<close>.
\<close>

definition top_value :: "(json \<times> (json \<times> nat) list) list \<Rightarrow> json \<Rightarrow> json" where
  "top_value t check =
     (case most_common_n 1 (case dget check t of None \<Rightarrow> [] | Some c \<Rightarrow> c) of
        [] \<Rightarrow> JStr []
      | kv # _ \<Rightarrow> fst kv)"

record csv_row =
  row_check :: json
  row_count :: nat
  row_top_impact :: json
  row_top_confidence :: json

definition csv_rows :: "agg \<Rightarrow> csv_row list" where
  "csv_rows st =
     map (\<lambda>kv. \<lparr>row_check = fst kv, row_count = snd kv,
                row_top_impact = top_value (impact_counts st) (fst kv),
                row_top_confidence = top_value (confidence_counts st) (fst kv)\<rparr>)
       (most_common (counts st))"

text \<open>Line 115.\<close>

definition csv_line :: "(json \<Rightarrow> string) \<Rightarrow> csv_row \<Rightarrow> string" where
  "csv_line repr r =
     dquote @ fmt repr (row_check r) @ dquote @ '','' @ show_nat (row_count r) @ '','' @
     dquote @ fmt repr (row_top_impact r) @ dquote @ '','' @
     dquote @ fmt repr (row_top_confidence r) @ dquote @ newline"

definition csv_header :: string where
  "csv_header = ''check,count,top_impact,top_confidence'' @ newline"

definition csv_text :: "(json \<Rightarrow> string) \<Rightarrow> agg \<Rightarrow> string" where
  "csv_text repr st = csv_header @ concat (map (csv_line repr) (csv_rows st))"

text \<open>\<^verbatim>\<open>str.strip()\<close> and \<^verbatim>\<open>str.replace("\n", "\n  - ")\<close>.\<close>

definition is_space :: "char \<Rightarrow> bool" where
  "is_space c =
     (let n = (of_char c :: nat)
      in (9 \<le> n \<and> n \<le> 13) \<or> (28 \<le> n \<and> n \<le> 32) \<or> n = 133 \<or> n = 160)"

definition strip :: "string \<Rightarrow> string" where
  "strip s = rev (dropWhile is_space (rev (dropWhile is_space s)))"

definition indent_breaks :: "string \<Rightarrow> string" where
  "indent_breaks s = concat (map (\<lambda>c. if c = CHR 0x0A then newline @ ''  - '' else [c]) s)"

text \<open>
  The bullet U+2022 of line 136 lies outside the characters of \<open>string\<close>; it stands here
  as the three bytes the file gets for it.
\<close>

definition bullet :: string where
  "bullet = [CHR 0xE2, CHR 0x80, CHR 0xA2]"

text \<open>
  The Markdown writer returns the text written and the exception that stopped it, if one
  did. Lines 133 to 140: the impact line is written before \<^verbatim>\<open>desc.strip()\<close> is tried, and
  only a string has \<^verbatim>\<open>strip\<close>.
\<close>

definition example_desc :: "(json \<times> json) list \<Rightarrow> json" where
  "example_desc ex = py_or (py_or (py_get ''description'' ex) (py_get ''markdown'' ex)) (JStr [])"

definition write_example :: "(json \<Rightarrow> string) \<Rightarrow> json \<Rightarrow> string \<times> error option" where
  "write_example repr ex =
     (case ex of
        JDict d \<Rightarrow>
          (let desc = example_desc d;
               impact = py_get_str ''impact'' d;
               conf = py_get_str ''confidence'' d;
               line = ''- Impact: '' @ fmt repr impact @ '' '' @ bullet @ '' Confidence: '' @
                      fmt repr conf @ newline
           in case desc of
                JStr s \<Rightarrow>
                  (let desc_formatted = indent_breaks (strip s)
                   in (line @ (if desc_formatted \<noteq> [] then ''  - '' @ desc_formatted @ newline
                               else []), None))
              | _ \<Rightarrow> (line, Some AttributeError))
      | _ \<Rightarrow> ([], Some AttributeError))"

fun write_examples :: "(json \<Rightarrow> string) \<Rightarrow> json list \<Rightarrow> string \<times> error option" where
  "write_examples repr [] = ([], None)"
| "write_examples repr (ex # exs) =
     (case write_example repr ex of
        (t, Some err) \<Rightarrow> (t, Some err)
      | (t, None) \<Rightarrow> (case write_examples repr exs of (t', r) \<Rightarrow> (t @ t', r)))"

text \<open>\<^verbatim>\<open>counts[check]\<close> on a \<^verbatim>\<open>Counter\<close>.\<close>

definition count_of :: "(json \<times> nat) list \<Rightarrow> json \<Rightarrow> nat" where
  "count_of c k = (case dget k c of None \<Rightarrow> 0 | Some n \<Rightarrow> n)"

text \<open>Lines 130 to 141; the second argument is \<^verbatim>\<open>counts\<close>.\<close>

fun write_sections ::
  "(json \<Rightarrow> string) \<Rightarrow> (json \<times> nat) list \<Rightarrow> (json \<times> json list) list \<Rightarrow> string \<times> error option" where
  "write_sections repr c [] = ([], None)"
| "write_sections repr c ((check, examples) # rest) =
     (let heading = ''### '' @ fmt repr check @ '' ('' @ show_nat (count_of c check) @ '')'' @ newline
      in case write_examples repr examples of
           (t, Some err) \<Rightarrow> (heading @ t, Some err)
         | (t, None) \<Rightarrow>
             (case write_sections repr c rest of (t', r) \<Rightarrow> (heading @ t @ newline @ t', r)))"

text \<open>Line 120.\<close>

definition total :: "agg \<Rightarrow> nat" where
  "total st = sum_list (map snd (counts st))"

text \<open>The categories whose representatives the summary shows: line 130.\<close>

definition shown_examples :: "agg \<Rightarrow> (json \<times> json list) list" where
  "shown_examples st = take 30 (top_examples st)"

definition top_line :: "(json \<Rightarrow> string) \<Rightarrow> json \<times> nat \<Rightarrow> string" where
  "top_line repr kv = ''- **'' @ fmt repr (fst kv) @ ''**: '' @ show_nat (snd kv) @ newline"

definition summary_head :: "(json \<Rightarrow> string) \<Rightarrow> agg \<Rightarrow> string" where
  "summary_head repr st =
     ''# Slither Summary'' @ newline @ newline @
     ''- Total findings: **'' @ show_nat (total st) @ ''**'' @ newline @
     ''- Unique detector types: **'' @ show_nat (length (counts st)) @ ''**'' @ newline @ newline @
     ''## Top detectors (by count)'' @ newline @ newline @
     concat (map (top_line repr) (most_common_n 30 (counts st))) @ newline @
     ''## Representative findings (up to 3 per detector)'' @ newline @ newline"

definition write_summary :: "(json \<Rightarrow> string) \<Rightarrow> agg \<Rightarrow> string \<times> error option" where
  "write_summary repr st =
     (case write_sections repr (counts st) (shown_examples st) of
        (t, r) \<Rightarrow> (summary_head repr st @ t, r))"

section \<open>The run\<close>

text \<open>
  The input file is missing, or is not JSON, or holds a document. A run ends with an exit
  status, 1 with the exception when one was not caught, and leaves the files it opened for
  writing: the trimmed report, the counts and the summary, the last one cut short when its
  writer raised.
\<close>

datatype input_file = Missing | Unparseable | Parsed json

datatype message = Input_not_found | No_detectors_found | Trimmed_written | Summary_written
  | Counts_written

record run =
  exit_status :: nat
  raised :: "error option"
  printed :: "message list"
  trimmed_file :: "json option"
  counts_file :: "string option"
  summary_file :: "string option"

definition crash :: "error \<Rightarrow> run" where
  "crash err = \<lparr>exit_status = 1, raised = Some err, printed = [], trimmed_file = None,
                counts_file = None, summary_file = None\<rparr>"

definition emit :: "(json \<Rightarrow> string) \<Rightarrow> (json \<times> json) list \<Rightarrow> json \<Rightarrow> agg \<Rightarrow> run" where
  "emit repr data results st =
     (let trimmed = build_trimmed data results (trimmed_detectors st);
          csv = csv_text repr st
      in case write_summary repr st of
           (md, None) \<Rightarrow>
             \<lparr>exit_status = 0, raised = None,
              printed = [Trimmed_written, Summary_written, Counts_written],
              trimmed_file = Some trimmed, counts_file = Some csv, summary_file = Some md\<rparr>
         | (md, Some err) \<Rightarrow>
             \<lparr>exit_status = 1, raised = Some err, printed = [],
              trimmed_file = Some trimmed, counts_file = Some csv, summary_file = Some md\<rparr>)"

definition main :: "(json \<Rightarrow> string) \<Rightarrow> input_file \<Rightarrow> run" where
  "main repr inp =
     (case inp of
        Missing \<Rightarrow>
          \<lparr>exit_status = 2, raised = None, printed = [Input_not_found], trimmed_file = None,
           counts_file = None, summary_file = None\<rparr>
      | Unparseable \<Rightarrow> crash JSONDecodeError
      | Parsed data \<Rightarrow>
          (case load_detectors data of
             Inl err \<Rightarrow> crash err
           | Inr (results, detectors) \<Rightarrow>
               if detectors = JNull
               then \<lparr>exit_status = 0, raised = None, printed = [No_detectors_found],
                     trimmed_file = None, counts_file = None, summary_file = None\<rparr>
               else (case py_iter detectors of
                       Inl err \<Rightarrow> crash err
                     | Inr dets \<Rightarrow>
                         (case aggregate init_agg dets of
                            Inl err \<Rightarrow> crash err
                          | Inr st \<Rightarrow>
                              (case data of JDict d \<Rightarrow> emit repr d results st
                               | _ \<Rightarrow> crash TypeError)))))"

section \<open>Reading a run\<close>

text \<open>
  The findings the loop runs over, when the loader finds a collection that can be run
  over; the findings of a trimmed document, under \<open>results.detectors\<close>; and a finding
  with its trimmed copy.
\<close>

definition input_findings :: "json \<Rightarrow> json list option" where
  "input_findings data =
     (case load_detectors data of
        Inl err \<Rightarrow> None
      | Inr (results, detectors) \<Rightarrow>
          if detectors = JNull then None
          else (case py_iter detectors of Inl err \<Rightarrow> None | Inr dets \<Rightarrow> Some dets))"

definition output_findings :: "json \<Rightarrow> json list option" where
  "output_findings t =
     (case field ''results'' t of
        Some r \<Rightarrow> (case field ''detectors'' r of Some (JList ts) \<Rightarrow> Some ts | _ \<Rightarrow> None)
      | None \<Rightarrow> None)"

definition trimmed_of :: "json \<Rightarrow> json \<Rightarrow> bool" where
  "trimmed_of det t = (case det of JDict d \<Rightarrow> trim_detector d = Inr t | _ \<Rightarrow> False)"

definition no_files :: "run \<Rightarrow> bool" where
  "no_files r = (trimmed_file r = None \<and> counts_file r = None \<and> summary_file r = None)"


text \<open>
  The findings of a category, and how often a value is the impact, or the confidence, of
  a finding of a category. Only a dict has a category.
\<close>

definition in_category :: "json \<Rightarrow> json \<Rightarrow> bool" where
  "in_category k det = (case det of JDict d \<Rightarrow> py_eq (check_of d) k | _ \<Rightarrow> False)"

definition findings_in :: "json \<Rightarrow> json list \<Rightarrow> json list" where
  "findings_in k dets = filter (in_category k) dets"

definition has_value :: "((json \<times> json) list \<Rightarrow> json) \<Rightarrow> json \<Rightarrow> json \<Rightarrow> bool" where
  "has_value g v det = (case det of JDict d \<Rightarrow> py_eq (g d) v | _ \<Rightarrow> False)"

definition frequency :: "((json \<times> json) list \<Rightarrow> json) \<Rightarrow> json \<Rightarrow> json \<Rightarrow> json list \<Rightarrow> nat" where
  "frequency g k v dets = length (filter (has_value g v) (findings_in k dets))"

text \<open>A table read at a category and a value: 0 where it has no entry.\<close>

definition tally :: "(json \<times> (json \<times> nat) list) list \<Rightarrow> json \<Rightarrow> json \<Rightarrow> nat" where
  "tally t k v = count_of (case dget k t of None \<Rightarrow> [] | Some c \<Rightarrow> c) v"

text \<open>No two items of a dict have the same key.\<close>

definition dkeys :: "(json \<times> 'a) list \<Rightarrow> bool" where
  "dkeys m = distinct (map (\<lambda>kv. key_norm (fst kv)) m)"


text \<open>What the loop keeps true of the counts and of a table, after the findings \<open>ds\<close>.\<close>

definition counts_ok :: "agg \<Rightarrow> json list \<Rightarrow> bool" where
  "counts_ok st ds = (dkeys (counts st) \<and>
     (\<forall>k. dget k (counts st) =
        (if findings_in k ds = [] then None else Some (length (findings_in k ds)))))"

definition table_ok ::
  "((json \<times> json) list \<Rightarrow> json) \<Rightarrow> (json \<times> (json \<times> nat) list) list \<Rightarrow> json list \<Rightarrow> bool" where
  "table_ok g t ds = ((\<forall>kc \<in> set t. dkeys (snd kc)) \<and>
     (\<forall>k v. tally t k v = frequency g k v ds))"

text \<open>
  A row of the CSV file as it would be with each of its four fields in quotes, the count
  too: the reading of the row format that line 115 is compared with.
\<close>

definition quoted_line :: "(json \<Rightarrow> string) \<Rightarrow> csv_row \<Rightarrow> string" where
  "quoted_line repr r =
     dquote @ fmt repr (row_check r) @ dquote @ '','' @
     dquote @ show_nat (row_count r) @ dquote @ '','' @
     dquote @ fmt repr (row_top_impact r) @ dquote @ '','' @
     dquote @ fmt repr (row_top_confidence r) @ dquote @ newline"

section \<open>The trimming pass on a heap\<close>

text \<open>
  The functions above compute with values, where nothing can be shared. To see what the
  pass writes to, the same lines are modelled once more on a heap: a list or a dict is an
  object at an address, a value is an atom (\<^verbatim>\<open>None\<close>, a bool, a number, a string) or a
  reference, \<^verbatim>\<open>dict(x)\<close> and a list or dict display make a new object, and
  \<^verbatim>\<open>d[k] = v\<close> and \<^verbatim>\<open>xs.append(v)\<close> change the object at an address. The heap is the list
  of its objects, a new one at the end. The counters hold atoms only and stay with the
  value model; the lists \<^verbatim>\<open>top_examples\<close> and \<^verbatim>\<open>trimmed_detectors\<close> of the script hold
  references into the heap.
\<close>

datatype val = Atom json | Ref nat

datatype obj = OList "val list" | ODict "(json \<times> val) list"

type_synonym heap = "obj list"

definition alloc :: "obj \<Rightarrow> heap \<Rightarrow> nat \<times> heap" where
  "alloc ob h = (length h, h @ [ob])"

text \<open>The items of a dict and the elements of a list; \<open>None\<close> for any other value.\<close>

definition items_at :: "heap \<Rightarrow> val \<Rightarrow> (json \<times> val) list option" where
  "items_at h v =
     (case v of
        Ref a \<Rightarrow> if a < length h then (case h ! a of ODict kvs \<Rightarrow> Some kvs | _ \<Rightarrow> None) else None
      | Atom x \<Rightarrow> None)"

definition elems_at :: "heap \<Rightarrow> val \<Rightarrow> val list option" where
  "elems_at h v =
     (case v of
        Ref a \<Rightarrow> if a < length h then (case h ! a of OList vs \<Rightarrow> Some vs | _ \<Rightarrow> None) else None
      | Atom x \<Rightarrow> None)"

definition h_truthy :: "heap \<Rightarrow> val \<Rightarrow> bool" where
  "h_truthy h v =
     (case v of
        Atom x \<Rightarrow> truthy x
      | Ref a \<Rightarrow> a < length h \<and> (case h ! a of OList vs \<Rightarrow> vs \<noteq> [] | ODict kvs \<Rightarrow> kvs \<noteq> []))"

definition h_get :: "string \<Rightarrow> (json \<times> val) list \<Rightarrow> val" where
  "h_get k d = (case dget (JStr k) d of None \<Rightarrow> Atom JNull | Some v \<Rightarrow> v)"

text \<open>\<^verbatim>\<open>d[k] = v\<close> and \<^verbatim>\<open>xs.append(v)\<close> on the object at an address.\<close>

definition h_set :: "nat \<Rightarrow> json \<Rightarrow> val \<Rightarrow> heap \<Rightarrow> heap" where
  "h_set a k v h = (case h ! a of ODict kvs \<Rightarrow> h[a := ODict (dset k v kvs)] | OList vs \<Rightarrow> h)"

definition h_append :: "nat \<Rightarrow> val \<Rightarrow> heap \<Rightarrow> heap" where
  "h_append a v h = (case h ! a of OList vs \<Rightarrow> h[a := OList (vs @ [v])] | ODict kvs \<Rightarrow> h)"

text \<open>
  Lines 43 to 53. A short list is kept in the summary by reference; the two slices of a
  long one are new lists.
\<close>

definition h_summarize_lines :: "heap \<Rightarrow> val \<Rightarrow> val \<times> heap" where
  "h_summarize_lines h lines =
     (case elems_at h lines of
        None \<Rightarrow> (lines, h)
      | Some vs \<Rightarrow>
          (let n = length vs in
           if n \<le> 10
           then (case alloc (ODict [(JStr ''count'', Atom (JInt (int n))),
                                    (JStr ''lines_preview'', lines)]) h of
                   (a, h1) \<Rightarrow> (Ref a, h1))
           else (case alloc (OList (slice_to 5 vs)) h of
                   (f, h1) \<Rightarrow>
                     (case alloc (OList (slice_from (- 5) vs)) h1 of
                        (l, h2) \<Rightarrow>
                          (case alloc (ODict [(JStr ''count'', Atom (JInt (int n))),
                                              (JStr ''first'', Ref f),
                                              (JStr ''last'', Ref l)]) h2 of
                             (a, h3) \<Rightarrow> (Ref a, h3))))))"

definition h_iter :: "heap \<Rightarrow> val \<Rightarrow> error + val list" where
  "h_iter h v =
     (case v of
        Atom (JStr s) \<Rightarrow> Inr (map (\<lambda>c. Atom (JStr [c])) s)
      | Atom x \<Rightarrow> Inl TypeError
      | Ref a \<Rightarrow>
          if a < length h
          then (case h ! a of OList vs \<Rightarrow> Inr vs | ODict kvs \<Rightarrow> Inr (map (\<lambda>kv. Atom (fst kv)) kvs))
          else Inl TypeError)"

fun str_pair :: "string \<Rightarrow> error + (val \<times> val)" where
  "str_pair [a, b] = Inr (Atom (JStr [a]), Atom (JStr [b]))"
| "str_pair s = Inl ValueError"

fun list_pair :: "val list \<Rightarrow> error + (val \<times> val)" where
  "list_pair [k, v] = Inr (k, v)"
| "list_pair vs = Inl ValueError"

fun keys_pair :: "(json \<times> val) list \<Rightarrow> error + (val \<times> val)" where
  "keys_pair [(k1, v1), (k2, v2)] = Inr (Atom k1, Atom k2)"
| "keys_pair kvs = Inl ValueError"

definition h_pair_of_item :: "heap \<Rightarrow> val \<Rightarrow> error + (val \<times> val)" where
  "h_pair_of_item h v =
     (case v of
        Atom (JStr s) \<Rightarrow> str_pair s
      | Atom x \<Rightarrow> Inl TypeError
      | Ref a \<Rightarrow>
          if a < length h
          then (case h ! a of OList vs \<Rightarrow> list_pair vs | ODict kvs \<Rightarrow> keys_pair kvs)
          else Inl TypeError)"

fun h_dict_of_pairs :: "heap \<Rightarrow> (json \<times> val) list \<Rightarrow> val list \<Rightarrow> error + (json \<times> val) list" where
  "h_dict_of_pairs h acc [] = Inr acc"
| "h_dict_of_pairs h acc (x # xs) =
     (case h_pair_of_item h x of
        Inl err \<Rightarrow> Inl err
      | Inr (Atom k, v) \<Rightarrow> h_dict_of_pairs h (dset k v acc) xs
      | Inr (Ref a, v) \<Rightarrow> Inl TypeError)"

text \<open>\<^verbatim>\<open>dict(x)\<close>: always a new object.\<close>

definition h_dict :: "heap \<Rightarrow> val \<Rightarrow> error + (nat \<times> heap)" where
  "h_dict h v =
     (case v of
        Atom (JStr s) \<Rightarrow> if s = [] then Inr (alloc (ODict []) h) else Inl ValueError
      | Atom x \<Rightarrow> Inl TypeError
      | Ref a \<Rightarrow>
          if a < length h
          then (case h ! a of
                  ODict kvs \<Rightarrow> Inr (alloc (ODict kvs) h)
                | OList vs \<Rightarrow>
                    (case h_dict_of_pairs h [] vs of
                       Inl err \<Rightarrow> Inl err
                     | Inr kvs \<Rightarrow> Inr (alloc (ODict kvs) h)))
          else Inl TypeError)"

text \<open>Lines 75 to 81; \<open>ec\<close> is the address of \<^verbatim>\<open>e_copy\<close>.\<close>

definition h_trim_source_mapping :: "nat \<Rightarrow> heap \<Rightarrow> heap" where
  "h_trim_source_mapping ec h =
     (case items_at h (Ref ec) of
        None \<Rightarrow> h
      | Some e_copy \<Rightarrow>
          (let sm = h_get ''source_mapping'' e_copy in
           case items_at h sm of
             None \<Rightarrow> h
           | Some sm_items \<Rightarrow>
               (let lines = h_get ''lines'' sm_items in
                if lines \<noteq> Atom JNull
                then (case alloc (ODict sm_items) h of
                        (sm', h1) \<Rightarrow>
                          (case h_summarize_lines h1 lines of
                             (s, h2) \<Rightarrow>
                               h_set ec (JStr ''source_mapping'') (Ref sm')
                                 (h_set sm' (JStr ''lines'') s h2)))
                else h)))"

text \<open>Lines 83 to 95. The \<^verbatim>\<open>{}\<close> of line 83 is a new object.\<close>

definition h_trim_parent :: "nat \<Rightarrow> heap \<Rightarrow> heap" where
  "h_trim_parent ec h =
     (case items_at h (Ref ec) of
        None \<Rightarrow> h
      | Some e_copy \<Rightarrow>
          (let t = h_get ''type_specific_fields'' e_copy in
           if \<not> h_truthy h t then snd (alloc (ODict []) h)
           else (case items_at h t of
                   None \<Rightarrow> h
                 | Some tsf \<Rightarrow>
                     (let parent = h_get ''parent'' tsf in
                      case items_at h parent of
                        None \<Rightarrow> h
                      | Some parent_items \<Rightarrow>
                          (let psm = h_get ''source_mapping'' parent_items in
                           case items_at h psm of
                             None \<Rightarrow> h
                           | Some psm_items \<Rightarrow>
                               if dget (JStr ''lines'') psm_items \<noteq> None
                               then (case alloc (ODict psm_items) h of
                                 (psm', h1) \<Rightarrow>
                                   (case h_summarize_lines h1 (h_get ''lines'' psm_items) of
                                      (s, h2) \<Rightarrow>
                                        (let h3 = h_set psm' (JStr ''lines'') s h2 in
                                         case alloc (ODict parent_items) h3 of
                                           (parent', h4) \<Rightarrow>
                                             (let h5 = h_set parent' (JStr ''source_mapping'') (Ref psm') h4 in
                                              case alloc (ODict tsf) h5 of
                                                (tsf', h6) \<Rightarrow>
                                                  h_set ec (JStr ''type_specific_fields'') (Ref tsf')
                                                    (h_set tsf' (JStr ''parent'') (Ref parent') h6)))))
                               else h)))))"

definition h_trim_element :: "heap \<Rightarrow> val \<Rightarrow> error + (nat \<times> heap)" where
  "h_trim_element h e =
     (case h_dict h e of
        Inl err \<Rightarrow> Inl err
      | Inr (ec, h1) \<Rightarrow> Inr (ec, h_trim_parent ec (h_trim_source_mapping ec h1)))"

text \<open>The loop of lines 73 to 96; \<open>ne\<close> is the address of \<^verbatim>\<open>new_elems\<close>.\<close>

fun h_trim_elements :: "nat \<Rightarrow> heap \<Rightarrow> val list \<Rightarrow> error + heap" where
  "h_trim_elements ne h [] = Inr h"
| "h_trim_elements ne h (e # es) =
     (case h_trim_element h e of
        Inl err \<Rightarrow> Inl err
      | Inr (ec, h1) \<Rightarrow> h_trim_elements ne (h_append ne (Ref ec) h1) es)"

text \<open>Lines 70 to 97: the address of \<^verbatim>\<open>det_copy\<close> and the heap after the pass.\<close>

definition h_trim_detector :: "heap \<Rightarrow> val \<Rightarrow> error + (nat \<times> heap)" where
  "h_trim_detector h det =
     (case h_dict h det of
        Inl err \<Rightarrow> Inl err
      | Inr (dc, h1) \<Rightarrow>
          (case items_at h1 (Ref dc) of
             None \<Rightarrow> Inl TypeError
           | Some det_copy \<Rightarrow>
               (let e = h_get ''elements'' det_copy in
                case (if h_truthy h1 e then (e, h1)
                      else (case alloc (OList []) h1 of (a, h2) \<Rightarrow> (Ref a, h2))) of
                  (elems, h2) \<Rightarrow>
                    (case alloc (OList []) h2 of
                       (ne, h3) \<Rightarrow>
                         (case h_iter h3 elems of
                            Inl err \<Rightarrow> Inl err
                          | Inr es \<Rightarrow>
                              (case h_trim_elements ne h3 es of
                                 Inl err \<Rightarrow> Inl err
                               | Inr h4 \<Rightarrow> Inr (dc, h_set dc (JStr ''elements'') (Ref ne) h4)))))))"

text \<open>
  The loop of lines 57 to 98 with the two lists that hold references: the representatives,
  which are the findings themselves, and the trimmed copies.
\<close>

record hagg =
  h_examples :: "(json \<times> val list) list"
  h_trimmed :: "val list"

definition h_or_atom :: "heap \<Rightarrow> val \<Rightarrow> json \<Rightarrow> val" where
  "h_or_atom h v d = (if h_truthy h v then v else Atom d)"

definition h_store_example :: "json \<Rightarrow> val \<Rightarrow> (json \<times> val list) list \<Rightarrow> (json \<times> val list) list" where
  "h_store_example check det t =
     (let exs = (case dget check t of None \<Rightarrow> [] | Some xs \<Rightarrow> xs) in
      dset check (if length exs < 3 then exs @ [det] else exs) t)"

definition h_process_detector :: "heap \<Rightarrow> hagg \<Rightarrow> val \<Rightarrow> error + (heap \<times> hagg)" where
  "h_process_detector h st det =
     (case items_at h det of
        None \<Rightarrow> Inl AttributeError
      | Some d \<Rightarrow>
          (case h_or_atom h (h_get ''check'' d) (JStr ''unknown'') of
             Ref a \<Rightarrow> Inl TypeError
           | Atom check \<Rightarrow>
               (case h_or_atom h (h_get ''impact'' d) (JStr []) of
                  Ref a \<Rightarrow> Inl TypeError
                | Atom impact \<Rightarrow>
                    (case h_or_atom h (h_get ''confidence'' d) (JStr []) of
                       Ref a \<Rightarrow> Inl TypeError
                     | Atom confidence \<Rightarrow>
                         (case h_trim_detector h det of
                            Inl err \<Rightarrow> Inl err
                          | Inr (dc, h1) \<Rightarrow>
                              Inr (h1, \<lparr>h_examples = h_store_example check det (h_examples st),
                                        h_trimmed = h_trimmed st @ [Ref dc]\<rparr>))))))"

fun h_aggregate :: "heap \<Rightarrow> hagg \<Rightarrow> val list \<Rightarrow> error + (heap \<times> hagg)" where
  "h_aggregate h st [] = Inr (h, st)"
| "h_aggregate h st (det # dets) =
     (case h_process_detector h st det of
        Inl err \<Rightarrow> Inl err
      | Inr (h1, st1) \<Rightarrow> h_aggregate h1 st1 dets)"

text \<open>
  What \<^verbatim>\<open>json.load\<close> builds on the heap for a document, and the document that a value
  on the heap stands for, read down to a depth.
\<close>

fun store :: "json \<Rightarrow> heap \<Rightarrow> val \<times> heap"
  and store_list :: "json list \<Rightarrow> heap \<Rightarrow> val list \<times> heap"
  and store_items :: "(json \<times> json) list \<Rightarrow> heap \<Rightarrow> (json \<times> val) list \<times> heap" where
  "store (JList xs) h = (case store_list xs h of (vs, h1) \<Rightarrow> (Ref (length h1), h1 @ [OList vs]))"
| "store (JDict kvs) h = (case store_items kvs h of (ws, h1) \<Rightarrow> (Ref (length h1), h1 @ [ODict ws]))"
| "store JNull h = (Atom JNull, h)"
| "store (JBool b) h = (Atom (JBool b), h)"
| "store (JInt i) h = (Atom (JInt i), h)"
| "store (JFloat r) h = (Atom (JFloat r), h)"
| "store (JStr s) h = (Atom (JStr s), h)"
| "store_list [] h = ([], h)"
| "store_list (x # xs) h =
     (case store x h of (v, h1) \<Rightarrow> (case store_list xs h1 of (vs, h2) \<Rightarrow> (v # vs, h2)))"
| "store_items [] h = ([], h)"
| "store_items ((k, x) # kvs) h =
     (case store x h of (v, h1) \<Rightarrow> (case store_items kvs h1 of (ws, h2) \<Rightarrow> ((k, v) # ws, h2)))"

fun reify :: "nat \<Rightarrow> heap \<Rightarrow> val \<Rightarrow> json option" where
  "reify n h (Atom x) = Some x"
| "reify 0 h (Ref a) = None"
| "reify (Suc n) h (Ref a) =
     (if a < length h
      then (case h ! a of
              OList vs \<Rightarrow> map_option JList (those (map (reify n h) vs))
            | ODict kvs \<Rightarrow>
                map_option JDict
                  (those (map (\<lambda>kv. map_option (Pair (fst kv)) (reify n h (snd kv))) kvs)))
      else None)"

text \<open>Every object of the first heap is still, unchanged, at its address in the second.\<close>

definition extends :: "heap \<Rightarrow> heap \<Rightarrow> bool" where
  "extends h0 h = (length h0 \<le> length h \<and> take (length h0) h = h0)"

text \<open>The categories of the findings, in the order in which the loop first meets them.\<close>

definition add_category :: "json list \<Rightarrow> json \<Rightarrow> json list" where
  "add_category acc det =
     (case det of
        JDict d \<Rightarrow> if list_ex (py_eq (check_of d)) acc then acc else acc @ [check_of d]
      | _ \<Rightarrow> acc)"

definition categories :: "json list \<Rightarrow> json list" where
  "categories dets = foldl add_category [] dets"

text \<open>
  What the summary shows of a finding: the line of its impact and confidence and, when its
  description is a string that is not blank, the description as a nested bullet. What it
  shows of a category: the heading with the count, the findings, an empty line. And what
  it shows of the findings \<open>dets\<close> in all: the first 30 categories, each with its first
  three findings.
\<close>

definition example_text :: "(json \<Rightarrow> string) \<Rightarrow> json \<Rightarrow> string" where
  "example_text repr ex =
     (case ex of
        JDict d \<Rightarrow>
          ''- Impact: '' @ fmt repr (py_get_str ''impact'' d) @ '' '' @ bullet @
          '' Confidence: '' @ fmt repr (py_get_str ''confidence'' d) @ newline @
          (case example_desc d of
             JStr s \<Rightarrow>
               if indent_breaks (strip s) = [] then []
               else ''  - '' @ indent_breaks (strip s) @ newline
           | _ \<Rightarrow> [])
      | _ \<Rightarrow> [])"

definition section_text :: "(json \<Rightarrow> string) \<Rightarrow> nat \<Rightarrow> json \<Rightarrow> json list \<Rightarrow> string" where
  "section_text repr n k exs =
     ''### '' @ fmt repr k @ '' ('' @ show_nat n @ '')'' @ newline @
     concat (map (example_text repr) exs) @ newline"

definition representatives_text :: "(json \<Rightarrow> string) \<Rightarrow> json list \<Rightarrow> string" where
  "representatives_text repr dets =
     concat (map (\<lambda>k. section_text repr (length (findings_in k dets)) k
                          (take 3 (findings_in k dets)))
               (take 30 (categories dets)))"

text \<open>Whether a text occurs in another.\<close>

fun starts_with :: "string \<Rightarrow> string \<Rightarrow> bool" where
  "starts_with [] cs = True"
| "starts_with (p # ps) [] = False"
| "starts_with (p # ps) (c # cs) = (p = c \<and> starts_with ps cs)"

fun contains :: "string \<Rightarrow> string \<Rightarrow> bool" where
  "contains p [] = (p = [])"
| "contains p (c # cs) = (starts_with p (c # cs) \<or> contains p cs)"

section \<open>Properties\<close>

lemma py_eq_refl [simp]: "py_eq k k"
  by (simp add: py_eq_def)

lemma py_eq_JStr [simp]: "py_eq (JStr s) (JStr t) = (s = t)"
  by (simp add: py_eq_def)

lemma py_eq_sym: "py_eq a b \<Longrightarrow> py_eq b a"
  by (simp add: py_eq_def)

lemma py_eq_trans: "py_eq a b \<Longrightarrow> py_eq b c \<Longrightarrow> py_eq a c"
  by (simp add: py_eq_def)

lemma dget_dset: "dget k (dset k' v m) = (if py_eq k k' then Some v else dget k m)"
proof (induction m)
  case Nil
  show ?case by simp
next
  case (Cons p m)
  obtain k'' v'' where p: "p = (k'', v'')" by (cases p)
  show ?case using Cons p
    by (auto simp: py_eq_def)
qed


lemma dset_absent: "dget k m = None \<Longrightarrow> dset k v m = m @ [(k, v)]"
  by (induction m) (auto split: if_splits)

lemma dset_same: "dget k m = Some v \<Longrightarrow> dset k v m = m"
  by (induction m) (auto split: if_splits)

lemma dset_dset: "dset k v (dset k v' m) = dset k v m"
  by (induction m) auto

lemma slice_to_5: "5 \<le> length xs \<Longrightarrow> slice_to 5 xs = take 5 xs"
  by (simp add: slice_to_def slice_bound_def Let_def min_def)

lemma slice_from_minus_5: "5 \<le> length xs \<Longrightarrow> slice_from (- 5) xs = drop (length xs - 5) xs"
proof -
  assume a: "5 \<le> length xs"
  then have "nat (int (length xs) + - 5) = length xs - 5"
    by arith
  with a show ?thesis
    by (simp add: slice_from_def slice_bound_def Let_def max_def)
qed

text \<open>
  C1. The summary of a list of \<open>n\<close> lines: when \<open>n \<le> 10\<close> it is the record of \<open>count = n\<close>
  and \<open>lines_preview\<close>, the list itself; when \<open>n > 10\<close> it is the record of \<open>count = n\<close>,
  \<open>first\<close>, the first five lines, and \<open>last\<close>, the last five, and it has no other field.
\<close>

theorem summarize_lines_invariant:
  "field ''count'' (summarize_lines (JList xs)) = Some (JInt (int (length xs))) \<and>
   (if length xs \<le> 10
    then keys (summarize_lines (JList xs)) = [JStr ''count'', JStr ''lines_preview''] \<and>
         field ''lines_preview'' (summarize_lines (JList xs)) = Some (JList xs)
    else keys (summarize_lines (JList xs)) = [JStr ''count'', JStr ''first'', JStr ''last''] \<and>
         field ''first'' (summarize_lines (JList xs)) = Some (JList (take 5 xs)) \<and>
         field ''last'' (summarize_lines (JList xs)) = Some (JList (drop (length xs - 5) xs)) \<and>
         length (drop (length xs - 5) xs) = 5)"
proof (cases "length xs \<le> 10")
  case True
  then show ?thesis by (simp add: Let_def)
next
  case False
  then have "5 \<le> length xs" by simp
  with False show ?thesis
    by (simp add: Let_def slice_to_5 slice_from_minus_5)
qed

theorem summarize_lines_invariant_witness:
  "field ''first'' (summarize_lines (JList (map JInt [1, 2, 3, 4, 5, 6, 7, 8, 9, 10, 11, 12])))
     = Some (JList (map JInt [1, 2, 3, 4, 5])) \<and>
   field ''last'' (summarize_lines (JList (map JInt [1, 2, 3, 4, 5, 6, 7, 8, 9, 10, 11, 12])))
     = Some (JList (map JInt [8, 9, 10, 11, 12])) \<and>
   field ''lines_preview'' (summarize_lines (JList (map JInt [1, 2, 3])))
     = Some (JList (map JInt [1, 2, 3]))"
  using summarize_lines_invariant [of "map JInt [1, 2, 3, 4, 5, 6, 7, 8, 9, 10, 11, 12]"]
    summarize_lines_invariant [of "map JInt [1, 2, 3]"]
  by simp

lemma emit_fields:
  "trimmed_file (emit repr d results st) = Some (build_trimmed d results (trimmed_detectors st))"
  "counts_file (emit repr d results st) = Some (csv_text repr st)"
  "summary_file (emit repr d results st) = Some (fst (write_summary repr st))"
  "raised (emit repr d results st) = snd (write_summary repr st)"
  "exit_status (emit repr d results st) = (if snd (write_summary repr st) = None then 0 else 1)"
  by (auto simp: emit_def Let_def split: prod.splits option.splits)

lemma crash_fields:
  "trimmed_file (crash e) = None" "counts_file (crash e) = None" "summary_file (crash e) = None"
  "raised (crash e) = Some e" "exit_status (crash e) = 1"
  by (simp_all add: crash_def)

lemma load_detectors_dict: "load_detectors data = Inr p \<Longrightarrow> \<exists>d. data = JDict d"
  by (cases data) (simp_all add: load_detectors_def)

lemma main_emit:
  assumes "load_detectors (JDict d) = Inr (results, detectors)" "detectors \<noteq> JNull"
    "py_iter detectors = Inr dets" "aggregate init_agg dets = Inr st"
  shows "main repr (Parsed (JDict d)) = emit repr d results st"
  using assms by (simp add: main_def)

lemma main_files:
  assumes "trimmed_file (main repr (Parsed data)) \<noteq> None \<or> counts_file (main repr (Parsed data)) \<noteq> None
     \<or> summary_file (main repr (Parsed data)) \<noteq> None \<or> (raised (main repr (Parsed data)) = None \<and>
       (\<exists>results detectors. load_detectors data = Inr (results, detectors) \<and> detectors \<noteq> JNull))"
  shows "\<exists>d results detectors dets st. data = JDict d \<and> load_detectors data = Inr (results, detectors) \<and>
     detectors \<noteq> JNull \<and> py_iter detectors = Inr dets \<and> aggregate init_agg dets = Inr st \<and>
     main repr (Parsed data) = emit repr d results st"
proof (cases "load_detectors data")
  case (Inl e)
  with assms show ?thesis by (auto simp: main_def crash_fields)
next
  case (Inr p)
  obtain results detectors where p: "p = (results, detectors)" by (cases p)
  obtain d where d: "data = JDict d" using load_detectors_dict [OF Inr] by blast
  show ?thesis
  proof (cases "detectors = JNull")
    case True
    with assms Inr p show ?thesis by (auto simp: main_def)
  next
    case False
    show ?thesis
    proof (cases "py_iter detectors")
      case (Inl e)
      with assms Inr p False show ?thesis by (auto simp: main_def crash_fields)
    next
      case it: (Inr dets)
      show ?thesis
      proof (cases "aggregate init_agg dets")
        case (Inl e)
        with assms Inr p False it show ?thesis by (auto simp: main_def crash_fields)
      next
        case ag: (Inr st)
        with Inr p False it d show ?thesis by (auto simp: main_def)
      qed
    qed
  qed
qed



text \<open>
  C5. The loader on a document that is a mapping. A \<open>results\<close> field that is absent, or
  whose value is falsy (\<^verbatim>\<open>None\<close>, false, zero, an empty string, an empty list, an empty
  mapping), counts as the empty record, and the findings resolve to \<^verbatim>\<open>None\<close>. A
  non-empty mapping gives its \<open>detectors\<close> field. A truthy value that is not a mapping is
  the findings collection itself. The run ends with status 0 and no output file exactly
  when the resolved value is \<^verbatim>\<open>None\<close>, and then it prints the message. So an empty list
  under \<open>results\<close> is not a findings collection: it ends the run.
\<close>

theorem loader_resolution:
  "(dget (JStr ''results'') d = None \<or> \<not> truthy (py_get ''results'' d) \<longrightarrow>
      load_detectors (JDict d) = Inr (JDict [], JNull)) \<and>
   (py_get ''results'' d = JDict r \<and> r \<noteq> [] \<longrightarrow>
      load_detectors (JDict d) = Inr (JDict r, py_get ''detectors'' r)) \<and>
   (truthy (py_get ''results'' d) \<and> \<not> is_dict (py_get ''results'' d) \<longrightarrow>
      load_detectors (JDict d) = Inr (py_get ''results'' d, py_get ''results'' d)) \<and>
   ((exit_status (main repr (Parsed (JDict d))) = 0 \<and> no_files (main repr (Parsed (JDict d))))
      = (\<exists>results. load_detectors (JDict d) = Inr (results, JNull))) \<and>
   ((\<exists>results. load_detectors (JDict d) = Inr (results, JNull)) \<longrightarrow>
      printed (main repr (Parsed (JDict d))) = [No_detectors_found])"
proof -
  have a: "dget (JStr ''results'') d = None \<or> \<not> truthy (py_get ''results'' d) \<longrightarrow>
      load_detectors (JDict d) = Inr (JDict [], JNull)"
    by (auto simp: load_detectors_def py_or_def py_get_def)
  have b: "py_get ''results'' d = JDict r \<and> r \<noteq> [] \<longrightarrow>
      load_detectors (JDict d) = Inr (JDict r, py_get ''detectors'' r)"
    by (auto simp: load_detectors_def py_or_def)
  have c: "truthy (py_get ''results'' d) \<and> \<not> is_dict (py_get ''results'' d) \<longrightarrow>
      load_detectors (JDict d) = Inr (py_get ''results'' d, py_get ''results'' d)"
    by (cases "py_get ''results'' d") (auto simp: load_detectors_def py_or_def Let_def)
  have d: "(exit_status (main repr (Parsed (JDict d))) = 0 \<and> no_files (main repr (Parsed (JDict d))))
      = (\<exists>results. load_detectors (JDict d) = Inr (results, JNull))"
  proof
    assume h: "exit_status (main repr (Parsed (JDict d))) = 0 \<and> no_files (main repr (Parsed (JDict d)))"
    obtain results detectors where l: "load_detectors (JDict d) = Inr (results, detectors)"
      by (auto simp: load_detectors_def Let_def)
    show "\<exists>results. load_detectors (JDict d) = Inr (results, JNull)"
    proof (cases "detectors = JNull")
      case True
      with l show ?thesis by blast
    next
      case False
      have "raised (main repr (Parsed (JDict d))) = None"
        using h l False
        by (auto simp: main_def crash_fields emit_fields no_files_def split: sum.splits if_splits)
      then obtain d' r st where "main repr (Parsed (JDict d)) = emit repr d' r st"
        using main_files [of repr "JDict d"] l False by blast
      with h show ?thesis by (simp add: no_files_def emit_fields)
    qed
  next
    assume "\<exists>results. load_detectors (JDict d) = Inr (results, JNull)"
    then show "exit_status (main repr (Parsed (JDict d))) = 0 \<and> no_files (main repr (Parsed (JDict d)))"
      by (auto simp: main_def no_files_def)
  qed
  have e: "(\<exists>results. load_detectors (JDict d) = Inr (results, JNull)) \<longrightarrow>
      printed (main repr (Parsed (JDict d))) = [No_detectors_found]"
    by (auto simp: main_def)
  from a b c d e show ?thesis by blast
qed

theorem loader_resolution_witness:
  "load_detectors (JDict []) = Inr (JDict [], JNull) \<and>
   load_detectors (JDict [(JStr ''results'', JDict [(JStr ''detectors'', JList [])])])
     = Inr (JDict [(JStr ''detectors'', JList [])], JList []) \<and>
   load_detectors (JDict [(JStr ''results'', JList [JDict []])])
     = Inr (JList [JDict []], JList [JDict []]) \<and>
   printed (main (\<lambda>v. []) (Parsed (JDict []))) = [No_detectors_found]"
proof -
  have a: "dget (JStr ''results'') ([] :: (json \<times> json) list) = None"
    by simp
  have b: "py_get ''results'' [(JStr ''results'', JDict [(JStr ''detectors'', JList [])])]
             = JDict [(JStr ''detectors'', JList [])] \<and> [(JStr ''detectors'', JList [])] \<noteq> []"
    by code_simp
  have b': "py_get ''detectors'' [(JStr ''detectors'', JList [])] = JList []"
    by code_simp
  have c: "py_get ''results'' [(JStr ''results'', JList [JDict []])] = JList [JDict []]"
    by code_simp
  have c': "truthy (JList [JDict []]) \<and> \<not> is_dict (JList [JDict []])"
    by simp
  show ?thesis
    using loader_resolution [of "[]" "[]" "\<lambda>v. []"]
      loader_resolution [of "[(JStr ''results'', JDict [(JStr ''detectors'', JList [])])]"
         "[(JStr ''detectors'', JList [])]" "\<lambda>v. []"]
      loader_resolution [of "[(JStr ''results'', JList [JDict []])]" "[]" "\<lambda>v. []"]
      a b b' c c'
    by simp
qed

theorem loader_empty_list_counterexample:
  "load_detectors (JDict [(JStr ''results'', JList [])]) = Inr (JDict [], JNull) \<and>
   load_detectors (JDict [(JStr ''results'', JList [])]) \<noteq> Inr (JList [], JList []) \<and>
   exit_status (main (\<lambda>v. []) (Parsed (JDict [(JStr ''results'', JList [])]))) = 0 \<and>
   no_files (main (\<lambda>v. []) (Parsed (JDict [(JStr ''results'', JList [])])))"
  by code_simp

lemma process_detector_trimmed:
  assumes "process_detector st det = Inr st'"
  shows "\<exists>t. trimmed_of det t \<and> trimmed_detectors st' = trimmed_detectors st @ [t]"
proof (cases det)
  case (JDict d)
  with assms show ?thesis
    by (auto simp: process_detector_def trimmed_of_def Let_def split: if_splits sum.splits)
qed (use assms in \<open>simp_all add: process_detector_def\<close>)

lemma aggregate_trimmed:
  "aggregate st dets = Inr st' \<Longrightarrow>
     \<exists>ts. trimmed_detectors st' = trimmed_detectors st @ ts \<and> list_all2 trimmed_of dets ts"
proof (induction dets arbitrary: st)
  case Nil
  then show ?case by simp
next
  case (Cons det dets)
  from Cons.prems obtain st1 where p: "process_detector st det = Inr st1"
    and a: "aggregate st1 dets = Inr st'"
    by (auto split: sum.splits)
  from process_detector_trimmed [OF p] obtain t where
    t: "trimmed_of det t" "trimmed_detectors st1 = trimmed_detectors st @ [t]" by blast
  from Cons.IH [OF a] obtain ts where
    ts: "trimmed_detectors st' = trimmed_detectors st1 @ ts" "list_all2 trimmed_of dets ts" by blast
  have "trimmed_detectors st' = trimmed_detectors st @ (t # ts)"
    using t ts by simp
  moreover have "list_all2 trimmed_of (det # dets) (t # ts)"
    using t ts by simp
  ultimately show ?case by blast
qed

lemma output_findings_build:
  "output_findings (build_trimmed d results tds) = Some tds"
  by (simp add: output_findings_def build_trimmed_def dget_dset)

lemma main_trimmed_file:
  assumes "trimmed_file (main repr (Parsed data)) = Some t"
  shows "\<exists>d results detectors dets st. data = JDict d \<and>
     load_detectors data = Inr (results, detectors) \<and> detectors \<noteq> JNull \<and>
     py_iter detectors = Inr dets \<and> aggregate init_agg dets = Inr st \<and>
     t = build_trimmed d results (trimmed_detectors st)"
proof -
  from assms have "trimmed_file (main repr (Parsed data)) \<noteq> None" by simp
  then obtain d results detectors dets st where
    h: "data = JDict d" "load_detectors data = Inr (results, detectors)" "detectors \<noteq> JNull"
       "py_iter detectors = Inr dets" "aggregate init_agg dets = Inr st"
       "main repr (Parsed data) = emit repr d results st"
    using main_files [of repr data] by blast
  with assms have "t = build_trimmed d results (trimmed_detectors st)"
    by (simp add: emit_fields)
  with h show ?thesis by blast
qed


text \<open>
  C7. When a run writes the trimmed report, its findings are as many as the findings of
  the input and stand in the same order: the i-th of them is the trimmed copy of the i-th
  finding of the input.
\<close>

theorem trimmed_order:
  assumes "trimmed_file (main repr (Parsed data)) = Some t"
  shows "\<exists>dets ts. input_findings data = Some dets \<and> output_findings t = Some ts \<and>
           length ts = length dets \<and> list_all2 trimmed_of dets ts"
proof -
  from main_trimmed_file [OF assms] obtain d results detectors dets st where
    h: "data = JDict d" "load_detectors data = Inr (results, detectors)" "detectors \<noteq> JNull"
       "py_iter detectors = Inr dets" "aggregate init_agg dets = Inr st"
       "t = build_trimmed d results (trimmed_detectors st)"
    by blast
  from aggregate_trimmed [OF h(5)] have l: "list_all2 trimmed_of dets (trimmed_detectors st)"
    by (simp add: init_agg_def)
  have i: "input_findings data = Some dets"
    using h by (simp add: input_findings_def)
  have o: "output_findings t = Some (trimmed_detectors st)"
    using h by (simp add: output_findings_build)
  from l have "length (trimmed_detectors st) = length dets"
    by (simp add: list_all2_lengthD)
  with i o l show ?thesis by blast
qed

theorem trimmed_order_witness:
  "trimmed_file (main (\<lambda>v. [])
      (Parsed (JDict [(JStr ''results'', JDict [(JStr ''detectors'',
         JList [JDict [(JStr ''check'', JStr ''a'')], JDict [(JStr ''check'', JStr ''b'')]])])])))
     = Some (JDict [(JStr ''results'', JDict [(JStr ''detectors'',
         JList [JDict [(JStr ''check'', JStr ''a''), (JStr ''elements'', JList [])],
                JDict [(JStr ''check'', JStr ''b''), (JStr ''elements'', JList [])]])])]) \<and>
   (\<exists>dets ts.
      input_findings (JDict [(JStr ''results'', JDict [(JStr ''detectors'',
         JList [JDict [(JStr ''check'', JStr ''a'')], JDict [(JStr ''check'', JStr ''b'')]])])])
        = Some dets \<and>
      output_findings (JDict [(JStr ''results'', JDict [(JStr ''detectors'',
         JList [JDict [(JStr ''check'', JStr ''a''), (JStr ''elements'', JList [])],
                JDict [(JStr ''check'', JStr ''b''), (JStr ''elements'', JList [])]])])])
        = Some ts \<and>
      length ts = length dets \<and> list_all2 trimmed_of dets ts)"
proof -
  have h: "trimmed_file (main (\<lambda>v. [])
      (Parsed (JDict [(JStr ''results'', JDict [(JStr ''detectors'',
         JList [JDict [(JStr ''check'', JStr ''a'')], JDict [(JStr ''check'', JStr ''b'')]])])])))
     = Some (JDict [(JStr ''results'', JDict [(JStr ''detectors'',
         JList [JDict [(JStr ''check'', JStr ''a''), (JStr ''elements'', JList [])],
                JDict [(JStr ''check'', JStr ''b''), (JStr ''elements'', JList [])]])])])"
    by code_simp
  from trimmed_order [OF h] h show ?thesis by blast
qed




subsection \<open>The loop\<close>

lemma process_detector_Inr:
  assumes "process_detector st det = Inr st'"
  shows "\<exists>d t. det = JDict d \<and> trim_detector d = Inr t \<and>
    st' = \<lparr>counts = counter_incr (check_of d) (counts st),
           impact_counts = table_incr (check_of d) (impact_of d) (impact_counts st),
           confidence_counts = table_incr (check_of d) (confidence_of d) (confidence_counts st),
           top_examples = store_example (check_of d) det (top_examples st),
           trimmed_detectors = trimmed_detectors st @ [t]\<rparr>"
proof (cases det)
  case (JDict d)
  with assms show ?thesis
    by (auto simp: process_detector_def Let_def split: if_splits sum.splits)
qed (use assms in \<open>simp_all add: process_detector_def\<close>)

lemma aggregate_invariant:
  assumes "aggregate st rest = Inr st'" and "P st ds"
    and step: "\<And>s det s' xs. P s xs \<Longrightarrow> process_detector s det = Inr s' \<Longrightarrow> P s' (xs @ [det])"
  shows "P st' (ds @ rest)"
  using assms(1,2)
proof (induction rest arbitrary: st ds)
  case Nil
  then show ?case by simp
next
  case (Cons det rest)
  from Cons.prems(1) obtain s1 where p: "process_detector st det = Inr s1"
    and a: "aggregate s1 rest = Inr st'"
    by (auto split: sum.splits)
  have "P s1 (ds @ [det])" using step [OF Cons.prems(2) p] .
  from Cons.IH [OF a this] show ?case by simp
qed

lemma aggregate_append:
  "aggregate st (xs @ ys) =
     (case aggregate st xs of Inl err \<Rightarrow> Inl err | Inr st1 \<Rightarrow> aggregate st1 ys)"
  by (induction xs arbitrary: st) (auto split: sum.splits)

subsection \<open>Counts\<close>











subsection \<open>Lookups\<close>

lemma dget_cong_key: "py_eq k k' \<Longrightarrow> dget k m = dget k' m"
  by (induction m) (auto simp: py_eq_def)

lemma dkeys_Nil [simp]: "dkeys []"
  by (simp add: dkeys_def)

lemma dget_None_iff: "dget k m = None \<longleftrightarrow> key_norm k \<notin> (\<lambda>kv. key_norm (fst kv)) ` set m"
  by (induction m) (auto simp: py_eq_def split: if_splits)

lemma dkeys_dset: "dkeys m \<Longrightarrow> dkeys (dset k v m)"
proof (induction m)
  case Nil
  then show ?case by (simp add: dkeys_def)
next
  case (Cons p m)
  obtain k' v' where p: "p = (k', v')" by (cases p)
  show ?case
  proof (cases "py_eq k k'")
    case True
    with Cons.prems p show ?thesis by (simp add: dkeys_def)
  next
    case False
    have "dkeys m" using Cons.prems by (simp add: dkeys_def)
    then have d: "dkeys (dset k v m)" by (rule Cons.IH)
    have "key_norm k' \<notin> (\<lambda>kv. key_norm (fst kv)) ` set m"
      using Cons.prems p by (simp add: dkeys_def)
    then have n: "dget k' m = None" by (simp add: dget_None_iff)
    have "dget k' (dset k v m) = None"
      using n False by (simp add: dget_dset py_eq_def)
    then have "key_norm k' \<notin> (\<lambda>kv. key_norm (fst kv)) ` set (dset k v m)"
      by (simp add: dget_None_iff)
    with d False p show ?thesis by (simp add: dkeys_def)
  qed
qed

lemma dkeys_member: "dkeys m \<Longrightarrow> (k, v) \<in> set m \<Longrightarrow> dget k m = Some v"
proof (induction m)
  case Nil
  then show ?case by simp
next
  case (Cons p m)
  obtain k' v' where p: "p = (k', v')" by (cases p)
  show ?case
  proof (cases "(k, v) = p")
    case True
    with p show ?thesis by simp
  next
    case False
    with Cons.prems have m: "(k, v) \<in> set m" by simp
    have "key_norm k' \<notin> (\<lambda>kv. key_norm (fst kv)) ` set m"
      using Cons.prems p by (simp add: dkeys_def)
    with m have "key_norm k \<noteq> key_norm k'" by force
    moreover have "dget k m = Some v"
      using Cons.IH Cons.prems m by (simp add: dkeys_def)
    ultimately show ?thesis using p by (simp add: py_eq_def)
  qed
qed

lemma dget_member: "dget k m = Some v \<Longrightarrow> \<exists>k'. py_eq k k' \<and> (k', v) \<in> set m"
  by (induction m) (auto split: if_splits)

lemma set_dset: "(a, b) \<in> set (dset k v m) \<Longrightarrow> b = v \<or> (a, b) \<in> set m"
  by (induction m) (auto split: if_splits)

subsection \<open>Representatives\<close>

lemma findings_in_snoc:
  "findings_in k (xs @ [det]) = (if in_category k det then findings_in k xs @ [det] else findings_in k xs)"
  by (simp add: findings_in_def)

lemma findings_in_cong: "py_eq k k' \<Longrightarrow> findings_in k xs = findings_in k' xs"
  by (auto simp: findings_in_def in_category_def py_eq_def intro!: filter_cong split: json.splits)









subsection \<open>Ranking\<close>

lemma most_common_sorted: "sorted_wrt (\<lambda>a b. snd b \<le> snd a) (most_common c)"
proof -
  have "sorted (map (\<lambda>kv. - int (snd kv)) (sort_key (\<lambda>kv. - int (snd kv)) c))"
    by (rule sorted_sort_key)
  then show ?thesis
    by (simp add: most_common_def sorted_map)
qed

lemma most_common_stable:
  "filter (\<lambda>kv. snd kv = n) (most_common c) = filter (\<lambda>kv. snd kv = n) c"
  using sort_key_stable [of "\<lambda>kv. - int (snd kv)" "- int n" c]
  by (simp add: most_common_def)

lemma set_most_common [simp]: "set (most_common c) = set c"
  by (simp add: most_common_def)

lemma length_most_common [simp]: "length (most_common c) = length c"
  by (simp add: most_common_def)

lemma most_common_Nil [simp]: "most_common [] = []"
  by (simp add: most_common_def)

lemma most_common_Nil_iff [simp]: "most_common c = [] \<longleftrightarrow> c = []"
  using length_most_common [of c] by (metis length_0_conv)

lemma hd_most_common:
  assumes "c \<noteq> []"
  shows "hd (most_common c) = hd (filter (\<lambda>kv. \<forall>kv' \<in> set c. snd kv' \<le> snd kv) c)"
proof -
  obtain h t where s: "most_common c = h # t"
    using assms by (cases "most_common c") simp_all
  have hin: "h \<in> set c"
    using s set_most_common [of c] by (metis list.set_intros(1))
  have mx: "\<forall>x \<in> set c. snd x \<le> snd h"
    using most_common_sorted [of c] s set_most_common [of c] by (auto simp: s)
  have eq: "filter (\<lambda>kv. \<forall>kv' \<in> set c. snd kv' \<le> snd kv) c = filter (\<lambda>kv. snd kv = snd h) c"
  proof (rule filter_cong [OF refl])
    fix x assume x: "x \<in> set c"
    show "(\<forall>kv' \<in> set c. snd kv' \<le> snd x) = (snd x = snd h)"
      using mx hin x by (auto intro: antisym)
  qed
  have "filter (\<lambda>kv. snd kv = snd h) c = filter (\<lambda>kv. snd kv = snd h) (h # t)"
    using most_common_stable [of "snd h" c] s by simp
  then have "hd (filter (\<lambda>kv. snd kv = snd h) c) = h" by simp
  with eq s show ?thesis by simp
qed

lemma top_value_cases:
  "top_value t k =
     (case dget k t of None \<Rightarrow> JStr [] | Some c \<Rightarrow> if c = [] then JStr [] else fst (hd (most_common c)))"
proof (cases "dget k t")
  case None
  then show ?thesis by (simp add: top_value_def most_common_n_def most_common_def)
next
  case (Some c)
  show ?thesis
  proof (cases "most_common c")
    case Nil
    with Some show ?thesis by (simp add: top_value_def most_common_n_def)
  next
    case (Cons h t')
    then have "c \<noteq> []" by auto
    with Some Cons show ?thesis by (simp add: top_value_def most_common_n_def)
  qed
qed

subsection \<open>Counters\<close>

lemma count_of_cong: "py_eq v v' \<Longrightarrow> count_of c v = count_of c v'"
  by (simp add: count_of_def dget_cong_key [of v v'])

lemma count_of_counter_incr:
  "count_of (counter_incr v c) v' = count_of c v' + (if py_eq v' v then 1 else 0)"
proof (cases "py_eq v' v")
  case True
  then have "dget v c = dget v' c" by (simp add: dget_cong_key [of v' v])
  with True show ?thesis by (simp add: count_of_def counter_incr_def dget_dset)
next
  case False
  then show ?thesis by (simp add: count_of_def counter_incr_def dget_dset)
qed

lemma dkeys_counter_incr: "dkeys c \<Longrightarrow> dkeys (counter_incr v c)"
  by (simp add: counter_incr_def dkeys_dset)

lemma tally_table_incr:
  "tally (table_incr c v t) k v' = tally t k v' + (if py_eq k c \<and> py_eq v' v then 1 else 0)"
proof (cases "py_eq k c")
  case True
  then have "dget c t = dget k t" by (simp add: dget_cong_key [of k c])
  with True show ?thesis
    by (simp add: tally_def table_incr_def dget_dset count_of_counter_incr)
next
  case False
  then show ?thesis by (simp add: tally_def table_incr_def dget_dset)
qed

lemma frequency_snoc:
  "frequency g k v (xs @ [det])
     = frequency g k v xs + (if in_category k det \<and> has_value g v det then 1 else 0)"
  by (simp add: frequency_def findings_in_def)

lemma table_ok_step:
  assumes "table_ok g t xs"
  shows "table_ok g (table_incr (check_of d) (g d) t) (xs @ [JDict d])"
proof -
  have a: "\<forall>kc \<in> set (table_incr (check_of d) (g d) t). dkeys (snd kc)"
  proof
    fix kc assume m: "kc \<in> set (table_incr (check_of d) (g d) t)"
    obtain k c where kc: "kc = (k, c)" by (cases kc)
    from m kc have "c = counter_incr (g d) (case dget (check_of d) t of None \<Rightarrow> [] | Some c \<Rightarrow> c)
        \<or> (k, c) \<in> set t"
      using set_dset [of k c] by (auto simp: table_incr_def)
    moreover have "dkeys (case dget (check_of d) t of None \<Rightarrow> [] | Some c \<Rightarrow> c)"
    proof (cases "dget (check_of d) t")
      case None
      then show ?thesis by simp
    next
      case (Some c0)
      then obtain k0 where "(k0, c0) \<in> set t"
        using dget_member [of "check_of d" t c0] by blast
      with assms Some show ?thesis by (auto simp: table_ok_def)
    qed
    ultimately show "dkeys (snd kc)"
      using assms kc by (auto simp: table_ok_def dkeys_counter_incr)
  qed
  have b: "\<forall>k v. tally (table_incr (check_of d) (g d) t) k v = frequency g k v (xs @ [JDict d])"
    using assms
    by (auto simp: table_ok_def tally_table_incr frequency_snoc in_category_def has_value_def py_eq_def)
  from a b show ?thesis by (simp add: table_ok_def)
qed

lemma counts_ok_step:
  assumes "counts_ok s xs" "process_detector s det = Inr s'"
  shows "counts_ok s' (xs @ [det])"
proof -
  from process_detector_Inr [OF assms(2)] obtain d where
    d: "det = JDict d" and t: "counts s' = counter_incr (check_of d) (counts s)"
    by auto
  have cat: "\<And>k. in_category k det = py_eq k (check_of d)"
    by (auto simp: in_category_def d py_eq_def)
  have dk: "dkeys (counts s')"
    using assms(1) by (simp add: t counts_ok_def dkeys_counter_incr)
  have "\<forall>k. dget k (counts s') =
        (if findings_in k (xs @ [det]) = [] then None else Some (length (findings_in k (xs @ [det]))))"
  proof
    fix k
    have old: "dget k (counts s) =
        (if findings_in k xs = [] then None else Some (length (findings_in k xs)))"
      using assms(1) by (simp add: counts_ok_def)
    show "dget k (counts s') =
        (if findings_in k (xs @ [det]) = [] then None else Some (length (findings_in k (xs @ [det]))))"
    proof (cases "py_eq k (check_of d)")
      case True
      then have l: "dget (check_of d) (counts s) = dget k (counts s)"
        by (simp add: dget_cong_key)
      show ?thesis
        using True
        by (cases "findings_in k xs = []")
           (simp_all add: t counter_incr_def dget_dset l old findings_in_snoc cat)
    next
      case False
      then show ?thesis
        by (simp add: t counter_incr_def dget_dset old findings_in_snoc cat)
    qed
  qed
  with dk show ?thesis by (simp add: counts_ok_def)
qed

lemma aggregate_counts:
  assumes "aggregate init_agg dets = Inr st"
  shows "counts_ok st dets"
proof -
  have "counts_ok st ([] @ dets)"
  proof (rule aggregate_invariant [where P = counts_ok, OF assms])
    show "counts_ok init_agg []"
      by (simp add: counts_ok_def init_agg_def findings_in_def)
  qed (rule counts_ok_step)
  then show ?thesis by simp
qed

lemma aggregate_tables:
  assumes "aggregate init_agg dets = Inr st"
  shows "table_ok impact_of (impact_counts st) dets \<and>
         table_ok confidence_of (confidence_counts st) dets"
proof -
  let ?P = "\<lambda>s xs. table_ok impact_of (impact_counts s) xs \<and>
                    table_ok confidence_of (confidence_counts s) xs"
  have "?P st ([] @ dets)"
  proof (rule aggregate_invariant [where P = ?P, OF assms])
    show "?P init_agg []"
      by (simp add: table_ok_def init_agg_def tally_def count_of_def frequency_def findings_in_def)
  next
    fix s det s' and xs :: "json list"
    assume p: "?P s xs" and q: "process_detector s det = Inr s'"
    from process_detector_Inr [OF q] obtain d where
      d: "det = JDict d"
      and i: "impact_counts s' = table_incr (check_of d) (impact_of d) (impact_counts s)"
      and c: "confidence_counts s' = table_incr (check_of d) (confidence_of d) (confidence_counts s)"
      by auto
    show "?P s' (xs @ [det])"
      using p table_ok_step [of impact_of "impact_counts s" xs d]
        table_ok_step [of confidence_of "confidence_counts s" xs d]
      by (simp add: d i c)
  qed
  then show ?thesis by simp
qed

subsection \<open>Rows of the CSV file\<close>

lemma row_check_csv_rows: "map row_check (csv_rows st) = map fst (most_common (counts st))"
  by (simp add: csv_rows_def comp_def)

lemma dkeys_most_common: "dkeys c \<Longrightarrow> dkeys (most_common c)"
  by (simp add: dkeys_def most_common_def distinct_map)

lemma rows_distinct:
  assumes "counts_ok st dets"
  shows "distinct (map (\<lambda>r. key_norm (row_check r)) (csv_rows st))"
proof -
  have "dkeys (most_common (counts st))"
    using assms by (simp add: counts_ok_def dkeys_most_common)
  then have "distinct (map key_norm (map fst (most_common (counts st))))"
    by (simp add: dkeys_def comp_def)
  then have "distinct (map key_norm (map row_check (csv_rows st)))"
    by (simp only: row_check_csv_rows)
  then show ?thesis by (simp add: comp_def)
qed

lemma dget_Some_iff: "dget k m \<noteq> None \<longleftrightarrow> (\<exists>kv \<in> set m. py_eq k (fst kv))"
  by (auto simp: dget_None_iff py_eq_def)

lemma set_csv_rows:
  "r \<in> set (csv_rows st) \<longleftrightarrow>
     (\<exists>kv \<in> set (counts st). r = \<lparr>row_check = fst kv, row_count = snd kv,
        row_top_impact = top_value (impact_counts st) (fst kv),
        row_top_confidence = top_value (confidence_counts st) (fst kv)\<rparr>)"
  by (auto simp: csv_rows_def)

lemma rows_categories:
  assumes "counts_ok st dets"
  shows "(\<exists>r \<in> set (csv_rows st). py_eq k (row_check r)) \<longleftrightarrow> findings_in k dets \<noteq> []"
proof -
  have "(\<exists>r \<in> set (csv_rows st). py_eq k (row_check r))
          \<longleftrightarrow> (\<exists>kv \<in> set (counts st). py_eq k (fst kv))"
    by (simp add: csv_rows_def)
  also have "\<dots> \<longleftrightarrow> dget k (counts st) \<noteq> None"
    using dget_Some_iff [of k "counts st"] by blast
  also have "\<dots> \<longleftrightarrow> findings_in k dets \<noteq> []"
    using assms by (simp add: counts_ok_def)
  finally show ?thesis .
qed

lemma rows_counts:
  assumes "counts_ok st dets" "r \<in> set (csv_rows st)"
  shows "row_count r = length (findings_in (row_check r) dets) \<and> 0 < row_count r"
proof -
  from assms(2) obtain k n where m: "(k, n) \<in> set (counts st)"
    and r: "row_check r = k" "row_count r = n"
    by (auto simp: set_csv_rows)
  from assms(1) m have "dget k (counts st) = Some n"
    using dkeys_member [of "counts st" k n] by (simp add: counts_ok_def)
  with assms(1) have "findings_in k dets \<noteq> [] \<and> n = length (findings_in k dets)"
    by (auto simp: counts_ok_def split: if_splits)
  with r show ?thesis by auto
qed

lemma rows_sorted: "sorted_wrt (\<lambda>r r'. row_count r' \<le> row_count r) (csv_rows st)"
  using most_common_sorted [of "counts st"]
  by (simp add: csv_rows_def sorted_wrt_map)

lemma rows_ties:
  "map row_check (filter (\<lambda>r. row_count r = n) (csv_rows st))
     = map fst (filter (\<lambda>kv. snd kv = n) (counts st))"
proof -
  have "map row_check (filter (\<lambda>r. row_count r = n) (csv_rows st))
          = map fst (filter (\<lambda>kv. snd kv = n) (most_common (counts st)))"
    by (simp add: csv_rows_def filter_map comp_def)
  then show ?thesis by (simp add: most_common_stable)
qed

lemma count_of_bound:
  assumes "\<forall>x \<in> set c. snd x \<le> n"
  shows "count_of c v \<le> n"
proof (cases "dget v c")
  case None
  then show ?thesis by (simp add: count_of_def)
next
  case (Some m)
  then obtain k' where "(k', m) \<in> set c" using dget_member [of v c m] by blast
  with assms have "m \<le> n" by force
  with Some show ?thesis by (simp add: count_of_def)
qed

lemma top_value_most_frequent:
  assumes "table_ok g t ds"
  shows "frequency g k v ds \<le> frequency g k (top_value t k) ds"
proof -
  have "tally t k v \<le> tally t k (top_value t k)"
  proof (cases "dget k t")
    case None
    then show ?thesis by (simp add: tally_def count_of_def)
  next
    case (Some c)
    show ?thesis
    proof (cases "c = []")
      case True
      with Some show ?thesis by (simp add: tally_def count_of_def)
    next
      case False
      obtain h tl where s: "most_common c = h # tl"
        using False by (cases "most_common c") simp_all
      have hin: "h \<in> set c"
        using s set_most_common [of c] by (metis list.set_intros(1))
      have mx: "\<forall>x \<in> set c. snd x \<le> snd h"
        using most_common_sorted [of c] set_most_common [of c] by (auto simp: s)
      obtain k' where "(k', c) \<in> set t" using Some dget_member [of k t c] by blast
      with assms have dk: "dkeys c" by (auto simp: table_ok_def)
      have "dget (fst h) c = Some (snd h)"
        using dk hin dkeys_member [of c "fst h" "snd h"] by simp
      then have top: "count_of c (fst h) = snd h" by (simp add: count_of_def)
      have tv: "top_value t k = fst h"
        using Some False s by (simp add: top_value_cases)
      from count_of_bound [OF mx] have "count_of c v \<le> snd h" .
      with top tv Some show ?thesis by (simp add: tally_def)
    qed
  qed
  with assms show ?thesis by (simp add: table_ok_def)
qed

lemma top_value_first_max:
  "(dget k t = None \<or> dget k t = Some [] \<longrightarrow> top_value t k = JStr []) \<and>
   (\<forall>c. dget k t = Some c \<and> c \<noteq> [] \<longrightarrow>
      top_value t k = fst (hd (filter (\<lambda>kv. \<forall>kv' \<in> set c. snd kv' \<le> snd kv) c)))"
  by (auto simp: top_value_cases hd_most_common)

lemma main_counts_file:
  assumes "counts_file (main repr (Parsed data)) = Some csv"
  shows "\<exists>d results detectors dets st. data = JDict d \<and>
     load_detectors data = Inr (results, detectors) \<and> detectors \<noteq> JNull \<and>
     py_iter detectors = Inr dets \<and> aggregate init_agg dets = Inr st \<and>
     main repr (Parsed data) = emit repr d results st"
proof -
  from assms have "counts_file (main repr (Parsed data)) \<noteq> None" by simp
  then show ?thesis using main_files [of repr data] by blast
qed

text \<open>
  C4. When a run writes the CSV file, the file is the header row
  \<^verbatim>\<open>check,count,top_impact,top_confidence\<close> and then one row for each category that has a
  finding, with the number of its findings as count. The rows come by descending count,
  and rows of equal count in the order in which the categories entered the frequency
  table. In a row, \<open>top_impact\<close> and \<open>top_confidence\<close> are the most frequent impact and
  confidence among the findings of the category: the entry of the category's table of
  greatest count, the first inserted such entry when several have it, and the empty
  string when the table is empty. The check, \<open>top_impact\<close> and \<open>top_confidence\<close> of a
  row are written between double quotes, as they are, and the count is written bare.
\<close>

theorem csv_counts:
  assumes "counts_file (main repr (Parsed data)) = Some csv"
  shows "\<exists>dets st. input_findings data = Some dets \<and> aggregate init_agg dets = Inr st \<and>
     csv = ''check,count,top_impact,top_confidence'' @ newline @
           concat (map (csv_line repr) (csv_rows st)) \<and>
     (\<forall>r. csv_line repr r =
        dquote @ fmt repr (row_check r) @ dquote @ '','' @ show_nat (row_count r) @ '','' @
        dquote @ fmt repr (row_top_impact r) @ dquote @ '','' @
        dquote @ fmt repr (row_top_confidence r) @ dquote @ newline) \<and>
     distinct (map (\<lambda>r. key_norm (row_check r)) (csv_rows st)) \<and>
     (\<forall>k. (\<exists>r \<in> set (csv_rows st). py_eq k (row_check r)) \<longleftrightarrow> findings_in k dets \<noteq> []) \<and>
     (\<forall>r \<in> set (csv_rows st). row_count r = length (findings_in (row_check r) dets)) \<and>
     sorted_wrt (\<lambda>r r'. row_count r' \<le> row_count r) (csv_rows st) \<and>
     (\<forall>n. map row_check (filter (\<lambda>r. row_count r = n) (csv_rows st))
             = map fst (filter (\<lambda>kv. snd kv = n) (counts st))) \<and>
     (\<forall>r \<in> set (csv_rows st).
        row_top_impact r = top_value (impact_counts st) (row_check r) \<and>
        row_top_confidence r = top_value (confidence_counts st) (row_check r) \<and>
        (\<forall>v. frequency impact_of (row_check r) v dets
                \<le> frequency impact_of (row_check r) (row_top_impact r) dets) \<and>
        (\<forall>v. frequency confidence_of (row_check r) v dets
                \<le> frequency confidence_of (row_check r) (row_top_confidence r) dets)) \<and>
     (\<forall>t k. (dget k t = None \<or> dget k t = Some [] \<longrightarrow> top_value t k = JStr []) \<and>
        (\<forall>c. dget k t = Some c \<and> c \<noteq> [] \<longrightarrow>
           top_value t k = fst (hd (filter (\<lambda>kv. \<forall>kv' \<in> set c. snd kv' \<le> snd kv) c))))"
proof -
  from main_counts_file [OF assms] obtain d results detectors dets st where
    h: "data = JDict d" "load_detectors data = Inr (results, detectors)" "detectors \<noteq> JNull"
       "py_iter detectors = Inr dets" "aggregate init_agg dets = Inr st"
       "main repr (Parsed data) = emit repr d results st"
    by blast
  have i: "input_findings data = Some dets"
    using h by (simp add: input_findings_def)
  have c: "csv = ''check,count,top_impact,top_confidence'' @ newline @
           concat (map (csv_line repr) (csv_rows st))"
    using assms h by (simp add: emit_fields csv_text_def csv_header_def)
  have l: "\<forall>r. csv_line repr r =
        dquote @ fmt repr (row_check r) @ dquote @ '','' @ show_nat (row_count r) @ '','' @
        dquote @ fmt repr (row_top_impact r) @ dquote @ '','' @
        dquote @ fmt repr (row_top_confidence r) @ dquote @ newline"
    by (simp add: csv_line_def)
  have ok: "counts_ok st dets" using h(5) by (rule aggregate_counts)
  have tb: "table_ok impact_of (impact_counts st) dets"
    "table_ok confidence_of (confidence_counts st) dets"
    using aggregate_tables [OF h(5)] by simp_all
  have d1: "distinct (map (\<lambda>r. key_norm (row_check r)) (csv_rows st))"
    using ok by (rule rows_distinct)
  have d2: "\<forall>k. (\<exists>r \<in> set (csv_rows st). py_eq k (row_check r)) \<longleftrightarrow> findings_in k dets \<noteq> []"
    using rows_categories [OF ok] by blast
  have d3: "\<forall>r \<in> set (csv_rows st). row_count r = length (findings_in (row_check r) dets)"
    using rows_counts [OF ok] by blast
  have d4: "sorted_wrt (\<lambda>r r'. row_count r' \<le> row_count r) (csv_rows st)"
    by (rule rows_sorted)
  have d5: "\<forall>n. map row_check (filter (\<lambda>r. row_count r = n) (csv_rows st))
             = map fst (filter (\<lambda>kv. snd kv = n) (counts st))"
    by (simp add: rows_ties)
  have d6: "\<forall>r \<in> set (csv_rows st).
        row_top_impact r = top_value (impact_counts st) (row_check r) \<and>
        row_top_confidence r = top_value (confidence_counts st) (row_check r) \<and>
        (\<forall>v. frequency impact_of (row_check r) v dets
                \<le> frequency impact_of (row_check r) (row_top_impact r) dets) \<and>
        (\<forall>v. frequency confidence_of (row_check r) v dets
                \<le> frequency confidence_of (row_check r) (row_top_confidence r) dets)"
  proof
    fix r assume "r \<in> set (csv_rows st)"
    then have t: "row_top_impact r = top_value (impact_counts st) (row_check r)"
      "row_top_confidence r = top_value (confidence_counts st) (row_check r)"
      by (auto simp: set_csv_rows)
    show "row_top_impact r = top_value (impact_counts st) (row_check r) \<and>
        row_top_confidence r = top_value (confidence_counts st) (row_check r) \<and>
        (\<forall>v. frequency impact_of (row_check r) v dets
                \<le> frequency impact_of (row_check r) (row_top_impact r) dets) \<and>
        (\<forall>v. frequency confidence_of (row_check r) v dets
                \<le> frequency confidence_of (row_check r) (row_top_confidence r) dets)"
      using t top_value_most_frequent [OF tb(1)] top_value_most_frequent [OF tb(2)]
      by simp
  qed
  have d7: "\<forall>t k. (dget k t = None \<or> dget k t = Some [] \<longrightarrow> top_value t k = JStr []) \<and>
        (\<forall>c. dget k t = Some c \<and> c \<noteq> [] \<longrightarrow>
           top_value t k = fst (hd (filter (\<lambda>kv. \<forall>kv' \<in> set c. snd kv' \<le> snd kv) c)))"
    using top_value_first_max by blast
  show ?thesis
    apply (rule exI [of _ dets])
    apply (rule exI [of _ st])
    apply (intro conjI)
              apply (rule i)
             apply (rule h(5))
            apply (rule c)
           apply (rule l)
          apply (rule d1)
         apply (rule d2)
        apply (rule d3)
       apply (rule d4)
      apply (rule d5)
     apply (rule d6)
    apply (rule d7)
    done
qed

theorem csv_counts_witness:
  "\<exists>csv dets st.
     counts_file (main (\<lambda>v. []) (Parsed (JDict [(JStr ''results'',
          JList [JDict [(JStr ''check'', JStr ''b'')],
                 JDict [(JStr ''check'', JStr ''a''), (JStr ''impact'', JStr ''High'')],
                 JDict [(JStr ''check'', JStr ''a''), (JStr ''impact'', JStr ''High'')]])]))) = Some csv \<and>
     input_findings (JDict [(JStr ''results'',
          JList [JDict [(JStr ''check'', JStr ''b'')],
                 JDict [(JStr ''check'', JStr ''a''), (JStr ''impact'', JStr ''High'')],
                 JDict [(JStr ''check'', JStr ''a''), (JStr ''impact'', JStr ''High'')]])]) = Some dets \<and>
     aggregate init_agg dets = Inr st \<and>
     csv = ''check,count,top_impact,top_confidence'' @ newline @
           concat (map (csv_line (\<lambda>v. [])) (csv_rows st)) \<and>
     csv_rows st = [\<lparr>row_check = JStr ''a'', row_count = 2, row_top_impact = JStr ''High'',
              row_top_confidence = JStr []\<rparr>,
           \<lparr>row_check = JStr ''b'', row_count = 1, row_top_impact = JStr [],
              row_top_confidence = JStr []\<rparr>] \<and>
     sorted_wrt (\<lambda>r r'. row_count r' \<le> row_count r) (csv_rows st) \<and>
     (\<forall>r \<in> set (csv_rows st). row_count r = length (findings_in (row_check r) dets))"
proof -
  have "counts_file (main (\<lambda>v. []) (Parsed (JDict [(JStr ''results'',
          JList [JDict [(JStr ''check'', JStr ''b'')],
                 JDict [(JStr ''check'', JStr ''a''), (JStr ''impact'', JStr ''High'')],
                 JDict [(JStr ''check'', JStr ''a''), (JStr ''impact'', JStr ''High'')]])]))) \<noteq> None"
    by code_simp
  then obtain csv where h: "counts_file (main (\<lambda>v. []) (Parsed (JDict [(JStr ''results'',
          JList [JDict [(JStr ''check'', JStr ''b'')],
                 JDict [(JStr ''check'', JStr ''a''), (JStr ''impact'', JStr ''High'')],
                 JDict [(JStr ''check'', JStr ''a''), (JStr ''impact'', JStr ''High'')]])]))) = Some csv"
    by blast
  have i: "input_findings (JDict [(JStr ''results'',
          JList [JDict [(JStr ''check'', JStr ''b'')],
                 JDict [(JStr ''check'', JStr ''a''), (JStr ''impact'', JStr ''High'')],
                 JDict [(JStr ''check'', JStr ''a''), (JStr ''impact'', JStr ''High'')]])]) = Some [JDict [(JStr ''check'', JStr ''b'')],
                 JDict [(JStr ''check'', JStr ''a''), (JStr ''impact'', JStr ''High'')],
                 JDict [(JStr ''check'', JStr ''a''), (JStr ''impact'', JStr ''High'')]]"
    by code_simp
  have s: "map_sum id csv_rows (aggregate init_agg [JDict [(JStr ''check'', JStr ''b'')],
                 JDict [(JStr ''check'', JStr ''a''), (JStr ''impact'', JStr ''High'')],
                 JDict [(JStr ''check'', JStr ''a''), (JStr ''impact'', JStr ''High'')]]) = Inr [\<lparr>row_check = JStr ''a'', row_count = 2, row_top_impact = JStr ''High'',
              row_top_confidence = JStr []\<rparr>,
           \<lparr>row_check = JStr ''b'', row_count = 1, row_top_impact = JStr [],
              row_top_confidence = JStr []\<rparr>]"
    by code_simp
  from csv_counts [OF h] obtain dets st where
    r: "input_findings (JDict [(JStr ''results'',
          JList [JDict [(JStr ''check'', JStr ''b'')],
                 JDict [(JStr ''check'', JStr ''a''), (JStr ''impact'', JStr ''High'')],
                 JDict [(JStr ''check'', JStr ''a''), (JStr ''impact'', JStr ''High'')]])]) = Some dets"
      "aggregate init_agg dets = Inr st"
      "csv = ''check,count,top_impact,top_confidence'' @ newline @
           concat (map (csv_line (\<lambda>v. [])) (csv_rows st))"
      "sorted_wrt (\<lambda>r r'. row_count r' \<le> row_count r) (csv_rows st)"
      "\<forall>r \<in> set (csv_rows st). row_count r = length (findings_in (row_check r) dets)"
    by blast
  from r(1) i have d: "dets = [JDict [(JStr ''check'', JStr ''b'')],
                 JDict [(JStr ''check'', JStr ''a''), (JStr ''impact'', JStr ''High'')],
                 JDict [(JStr ''check'', JStr ''a''), (JStr ''impact'', JStr ''High'')]]"
    by simp
  from s r(2) have rows: "csv_rows st = [\<lparr>row_check = JStr ''a'', row_count = 2, row_top_impact = JStr ''High'',
              row_top_confidence = JStr []\<rparr>,
           \<lparr>row_check = JStr ''b'', row_count = 1, row_top_impact = JStr [],
              row_top_confidence = JStr []\<rparr>]"
    unfolding d [symmetric] by simp
  from h r(1) r(2) r(3) rows r(4) r(5) show ?thesis by blast
qed

theorem csv_count_unquoted_counterexample:
  "counts_file (main (\<lambda>v. []) (Parsed (JDict [(JStr ''results'', JList [JDict [(JStr ''check'', JStr ''a'')]])])))
     = Some (''check,count,top_impact,top_confidence'' @ newline @
             dquote @ ''a'' @ dquote @ '',1,'' @ dquote @ dquote @ '','' @ dquote @ dquote @ newline) \<and>
   counts_file (main (\<lambda>v. []) (Parsed (JDict [(JStr ''results'', JList [JDict [(JStr ''check'', JStr ''a'')]])])))
     \<noteq> Some (''check,count,top_impact,top_confidence'' @ newline @
             quoted_line (\<lambda>v. []) \<lparr>row_check = JStr ''a'', row_count = 1, row_top_impact = JStr [],
                                     row_top_confidence = JStr []\<rparr>)"
  by code_simp

subsection \<open>The heap only grows\<close>

lemma extends_refl [simp]: "extends h h"
  by (simp add: extends_def)

lemma extends_alloc: "extends h0 h \<Longrightarrow> extends h0 (h @ [ob])"
  by (simp add: extends_def)

lemma extends_append: "extends h0 h \<Longrightarrow> extends h0 (h @ hs)"
  by (simp add: extends_def)

lemma extends_update: "extends h0 h \<Longrightarrow> length h0 \<le> a \<Longrightarrow> extends h0 (h[a := ob])"
  by (simp add: extends_def)

lemma extends_length: "extends h0 h \<Longrightarrow> length h0 \<le> length h"
  by (simp add: extends_def)

lemma extends_nth: "extends h0 h \<Longrightarrow> a < length h0 \<Longrightarrow> h ! a = h0 ! a"
  by (metis extends_def nth_take)

lemma extends_h_set: "extends h0 h \<Longrightarrow> length h0 \<le> a \<Longrightarrow> extends h0 (h_set a k v h)"
  by (simp add: h_set_def extends_update split: obj.splits)

lemma extends_h_append: "extends h0 h \<Longrightarrow> length h0 \<le> a \<Longrightarrow> extends h0 (h_append a v h)"
  by (simp add: h_append_def extends_update split: obj.splits)

lemma length_h_set [simp]: "length (h_set a k v h) = length h"
  by (simp add: h_set_def split: obj.splits)

lemma length_h_append [simp]: "length (h_append a v h) = length h"
  by (simp add: h_append_def split: obj.splits)

lemma extends_summarize:
  assumes "extends h0 h" "h_summarize_lines h lines = (s, h')"
  shows "extends h0 h'"
  using assms
  by (auto simp: h_summarize_lines_def alloc_def Let_def extends_append
           split: option.splits if_splits)

lemma h_dict_alloc:
  assumes "h_dict h v = Inr (a, h')"
  shows "a = length h \<and> (\<exists>kvs. h' = h @ [ODict kvs])"
  using assms
  by (auto simp: h_dict_def alloc_def split: val.splits json.splits if_splits obj.splits sum.splits)

lemma extends_trim_source_mapping:
  assumes "extends h0 h" "length h0 \<le> ec"
  shows "extends h0 (h_trim_source_mapping ec h)"
proof -
  have "\<And>sm_items lines s h2.
          h_summarize_lines (h @ [ODict sm_items]) lines = (s, h2) \<Longrightarrow>
          extends h0 (h_set ec (JStr ''source_mapping'') (Ref (length h))
                        (h_set (length h) (JStr ''lines'') s h2))"
  proof -
    fix sm_items lines s h2
    assume q: "h_summarize_lines (h @ [ODict sm_items]) lines = (s, h2)"
    have "extends h0 (h @ [ODict sm_items])" using assms(1) by (rule extends_alloc)
    then have "extends h0 h2" using q by (rule extends_summarize)
    moreover have "length h0 \<le> length h" using assms(1) by (rule extends_length)
    ultimately show "extends h0 (h_set ec (JStr ''source_mapping'') (Ref (length h))
                        (h_set (length h) (JStr ''lines'') s h2))"
      using assms(2) by (simp add: extends_h_set)
  qed
  then show ?thesis
    using assms(1)
    by (auto simp: h_trim_source_mapping_def alloc_def Let_def split: option.splits prod.splits)
qed

lemma extends_trim_parent:
  assumes "extends h0 h" "length h0 \<le> ec"
  shows "extends h0 (h_trim_parent ec h)"
proof -
  have l: "length h0 \<le> length h" using assms(1) by (rule extends_length)
  have "\<And>psm_items parent_items tsf lines s h2.
          h_summarize_lines (h @ [ODict psm_items]) lines = (s, h2) \<Longrightarrow>
          extends h0
            (h_set ec (JStr ''type_specific_fields'')
              (Ref (Suc (length (h_set (length h) (JStr ''lines'') s h2))))
              (h_set (Suc (length (h_set (length h) (JStr ''lines'') s h2))) (JStr ''parent'')
                (Ref (length (h_set (length h) (JStr ''lines'') s h2)))
                (h_set (length (h_set (length h) (JStr ''lines'') s h2)) (JStr ''source_mapping'')
                   (Ref (length h))
                   (h_set (length h) (JStr ''lines'') s h2 @ [ODict parent_items]) @ [ODict tsf])))"
  proof -
    fix psm_items parent_items tsf lines s h2
    assume q: "h_summarize_lines (h @ [ODict psm_items]) lines = (s, h2)"
    have "extends h0 (h @ [ODict psm_items])" using assms(1) by (rule extends_alloc)
    then have e2: "extends h0 h2" using q by (rule extends_summarize)
    then have l2: "length h0 \<le> length h2" by (rule extends_length)
    have e3: "extends h0 (h_set (length h) (JStr ''lines'') s h2)"
      using e2 l by (rule extends_h_set)
    have e4: "extends h0 (h_set (length h) (JStr ''lines'') s h2 @ [ODict parent_items])"
      using e3 by (rule extends_alloc)
    have e5: "extends h0 (h_set (length (h_set (length h) (JStr ''lines'') s h2)) (JStr ''source_mapping'')
                   (Ref (length h))
                   (h_set (length h) (JStr ''lines'') s h2 @ [ODict parent_items]))"
      using e4 l2 by (simp add: extends_h_set)
    have e6: "extends h0 (h_set (length (h_set (length h) (JStr ''lines'') s h2)) (JStr ''source_mapping'')
                   (Ref (length h))
                   (h_set (length h) (JStr ''lines'') s h2 @ [ODict parent_items]) @ [ODict tsf])"
      using e5 by (rule extends_alloc)
    show "extends h0
            (h_set ec (JStr ''type_specific_fields'')
              (Ref (Suc (length (h_set (length h) (JStr ''lines'') s h2))))
              (h_set (Suc (length (h_set (length h) (JStr ''lines'') s h2))) (JStr ''parent'')
                (Ref (length (h_set (length h) (JStr ''lines'') s h2)))
                (h_set (length (h_set (length h) (JStr ''lines'') s h2)) (JStr ''source_mapping'')
                   (Ref (length h))
                   (h_set (length h) (JStr ''lines'') s h2 @ [ODict parent_items]) @ [ODict tsf])))"
      using e6 l2 assms(2) by (simp add: extends_h_set)
  qed
  then show ?thesis
    using assms(1)
    by (auto simp: h_trim_parent_def alloc_def Let_def extends_alloc split: option.splits prod.splits)
qed

lemma extends_trim_element:
  assumes "extends h0 h" "h_trim_element h e = Inr (ec, h')"
  shows "extends h0 h' \<and> length h0 \<le> ec"
proof -
  from assms(2) obtain h1 where d: "h_dict h e = Inr (ec, h1)"
    and r: "h' = h_trim_parent ec (h_trim_source_mapping ec h1)"
    by (auto simp: h_trim_element_def split: sum.splits)
  from h_dict_alloc [OF d] obtain kvs where a: "ec = length h" "h1 = h @ [ODict kvs]" by blast
  have l: "length h0 \<le> ec" using assms(1) a by (simp add: extends_length)
  have "extends h0 h1" using assms(1) a by (simp add: extends_alloc)
  then have "extends h0 (h_trim_source_mapping ec h1)"
    using l by (rule extends_trim_source_mapping)
  then have "extends h0 h'"
    unfolding r using l by (rule extends_trim_parent)
  with l show ?thesis by simp
qed

lemma extends_trim_elements:
  "extends h0 h \<Longrightarrow> length h0 \<le> ne \<Longrightarrow> h_trim_elements ne h es = Inr h' \<Longrightarrow> extends h0 h'"
proof (induction es arbitrary: h)
  case Nil
  then show ?case by simp
next
  case (Cons e es)
  from Cons.prems(3) obtain ec h1 where t: "h_trim_element h e = Inr (ec, h1)"
    and r: "h_trim_elements ne (h_append ne (Ref ec) h1) es = Inr h'"
    by (auto split: sum.splits)
  from extends_trim_element [OF Cons.prems(1) t] have "extends h0 h1" by simp
  then have "extends h0 (h_append ne (Ref ec) h1)"
    using Cons.prems(2) by (rule extends_h_append)
  from Cons.IH [OF this Cons.prems(2) r] show ?case .
qed

lemma extends_trim_detector:
  assumes "extends h0 h" "h_trim_detector h det = Inr (dc, h')"
  shows "extends h0 h' \<and> length h0 \<le> dc"
proof -
  from assms(2) obtain h1 where d: "h_dict h det = Inr (dc, h1)"
    by (auto simp: h_trim_detector_def Let_def alloc_def
             split: sum.splits option.splits prod.splits if_splits)
  from h_dict_alloc [OF d] obtain kvs where a: "dc = length h" "h1 = h @ [ODict kvs]" by blast
  have l: "length h0 \<le> dc" using assms(1) a by (simp add: extends_length)
  have e1: "extends h0 h1" using assms(1) a by (simp add: extends_alloc)
  from assms(2) d obtain det_copy where dcp: "items_at h1 (Ref dc) = Some det_copy"
    by (auto simp: h_trim_detector_def split: option.splits)
  define e where "e = h_get ''elements'' det_copy"
  define h2 where "h2 = (if h_truthy h1 e then h1 else h1 @ [OList []])"
  define elems where "elems = (if h_truthy h1 e then e else Ref (length h1))"
  have h2: "extends h0 h2" using e1 by (simp add: h2_def extends_alloc)
  from assms(2) d dcp obtain es h4 where
    t: "h_trim_elements (length h2) (h2 @ [OList []]) es = Inr h4"
    and r: "h' = h_set dc (JStr ''elements'') (Ref (length h2)) h4"
    by (cases "h_truthy h1 e")
       (auto simp: h_trim_detector_def alloc_def Let_def e_def h2_def
             split: sum.splits)
  have "extends h0 (h2 @ [OList []])" using h2 by (rule extends_alloc)
  moreover have "length h0 \<le> length h2" using h2 by (rule extends_length)
  ultimately have "extends h0 h4" using t by (rule extends_trim_elements)
  then have "extends h0 h'" unfolding r using l by (rule extends_h_set)
  with l show ?thesis by simp
qed

lemma extends_process_detector:
  assumes "extends h0 h" "h_process_detector h st det = Inr (h', st')"
  shows "extends h0 h'"
proof -
  from assms(2) obtain dc where "h_trim_detector h det = Inr (dc, h')"
    by (auto simp: h_process_detector_def split: option.splits val.splits sum.splits)
  with assms(1) show ?thesis using extends_trim_detector by blast
qed

lemma extends_aggregate:
  "extends h0 h \<Longrightarrow> h_aggregate h st dets = Inr (h', st') \<Longrightarrow> extends h0 h'"
proof (induction dets arbitrary: h st)
  case Nil
  then show ?case by simp
next
  case (Cons det dets)
  from Cons.prems(2) obtain h1 st1 where p: "h_process_detector h st det = Inr (h1, st1)"
    and r: "h_aggregate h1 st1 dets = Inr (h', st')"
    by (auto split: sum.splits)
  from extends_process_detector [OF Cons.prems(1) p] have "extends h0 h1" .
  from Cons.IH [OF this r] show ?case .
qed

subsection \<open>What the old objects stand for\<close>

lemma those_map_cong:
  assumes "\<And>x. x \<in> set xs \<Longrightarrow> f x \<noteq> None \<Longrightarrow> g x = f x" "those (map f xs) = Some ys"
  shows "those (map g xs) = Some ys"
  using assms
proof (induction xs arbitrary: ys)
  case Nil
  then show ?case by simp
next
  case (Cons x xs)
  from Cons.prems(2) obtain y ys' where y: "f x = Some y" "those (map f xs) = Some ys'" "ys = y # ys'"
    by (auto split: option.splits)
  have "those (map g xs) = Some ys'"
    using Cons.IH [of ys'] Cons.prems(1) y(2) by simp
  moreover have "g x = Some y" using Cons.prems(1) [of x] y(1) by simp
  ultimately show ?case using y(3) by simp
qed

lemma reify_extends:
  "extends h h' \<Longrightarrow> reify n h v = Some j \<Longrightarrow> reify n h' v = Some j"
proof (induction n arbitrary: v j)
  case 0
  then show ?case by (cases v) simp_all
next
  case (Suc n)
  show ?case
  proof (cases v)
    case (Atom x)
    with Suc.prems show ?thesis by simp
  next
    case (Ref a)
    with Suc.prems have a: "a < length h" by (auto split: if_splits)
    then have a': "a < length h'" using Suc.prems(1) extends_length [of h h'] by simp
    have eq: "h' ! a = h ! a" using Suc.prems(1) a by (rule extends_nth)
    show ?thesis
    proof (cases "h ! a")
      case (OList vs)
      with Suc.prems Ref a obtain js where js: "those (map (reify n h) vs) = Some js" "j = JList js"
        by auto
      have "those (map (reify n h') vs) = Some js"
      proof (rule those_map_cong [OF _ js(1)])
        fix x assume "x \<in> set vs" "reify n h x \<noteq> None"
        then show "reify n h' x = reify n h x"
          using Suc.IH [OF Suc.prems(1)] by auto
      qed
      with OList Ref a' eq js show ?thesis by simp
    next
      case (ODict kvs)
      with Suc.prems Ref a obtain js where
        js: "those (map (\<lambda>kv. map_option (Pair (fst kv)) (reify n h (snd kv))) kvs) = Some js"
            "j = JDict js"
        by auto
      have "those (map (\<lambda>kv. map_option (Pair (fst kv)) (reify n h' (snd kv))) kvs) = Some js"
      proof (rule those_map_cong [OF _ js(1)])
        fix x assume "x \<in> set kvs" "map_option (Pair (fst x)) (reify n h (snd x)) \<noteq> None"
        then show "map_option (Pair (fst x)) (reify n h' (snd x))
                    = map_option (Pair (fst x)) (reify n h (snd x))"
          using Suc.IH [OF Suc.prems(1), of "snd x"] by auto
      qed
      with ODict Ref a' eq js show ?thesis by simp
    qed
  qed
qed

subsection \<open>The representatives and the copies\<close>

lemma h_store_example_members:
  assumes "kexs \<in> set (h_store_example check det t)" "x \<in> set (snd kexs)"
  shows "x = det \<or> (\<exists>kexs' \<in> set t. x \<in> set (snd kexs'))"
proof -
  obtain k exs where ke: "kexs = (k, exs)" by (cases kexs)
  define old where "old = (case dget check t of None \<Rightarrow> [] | Some xs \<Rightarrow> xs)"
  have o: "\<And>y. y \<in> set old \<Longrightarrow> \<exists>kexs' \<in> set t. y \<in> set (snd kexs')"
  proof (cases "dget check t")
    case None
    fix y assume "y \<in> set old"
    with None show "\<exists>kexs' \<in> set t. y \<in> set (snd kexs')" by (simp add: old_def)
  next
    case (Some xs)
    fix y assume y: "y \<in> set old"
    from Some obtain k' where "(k', xs) \<in> set t" using dget_member [of check t xs] by blast
    with y Some show "\<exists>kexs' \<in> set t. y \<in> set (snd kexs')" by (force simp: old_def)
  qed
  have "(k, exs) \<in> set (dset check (if length old < 3 then old @ [det] else old) t)"
    using assms(1) ke unfolding h_store_example_def Let_def old_def by blast
  then have "exs = (if length old < 3 then old @ [det] else old) \<or> (k, exs) \<in> set t"
    by (rule set_dset)
  then show ?thesis
  proof
    assume "exs = (if length old < 3 then old @ [det] else old)"
    with assms(2) ke have "x = det \<or> x \<in> set old" by (auto split: if_splits)
    with o show ?thesis by blast
  next
    assume "(k, exs) \<in> set t"
    with assms(2) ke show ?thesis by force
  qed
qed

lemma h_process_detector_lists:
  assumes "h_process_detector h st det = Inr (h', st')"
  shows "(\<forall>kexs \<in> set (h_examples st'). \<forall>x \<in> set (snd kexs).
            x = det \<or> (\<exists>kexs' \<in> set (h_examples st). x \<in> set (snd kexs'))) \<and>
         (\<exists>dc. length h \<le> dc \<and> h_trimmed st' = h_trimmed st @ [Ref dc])"
proof -
  from assms obtain check dc where
    t: "h_trim_detector h det = Inr (dc, h')"
    and s: "st' = \<lparr>h_examples = h_store_example check det (h_examples st),
                   h_trimmed = h_trimmed st @ [Ref dc]\<rparr>"
    by (auto simp: h_process_detector_def split: option.splits val.splits sum.splits)
  have "length h \<le> dc" using extends_trim_detector [OF extends_refl t] by simp
  with s show ?thesis using h_store_example_members by auto
qed

lemma h_aggregate_lists:
  "h_aggregate h st dets = Inr (h', st') \<Longrightarrow>
     (\<forall>kexs \<in> set (h_examples st'). \<forall>x \<in> set (snd kexs).
        x \<in> set dets \<or> (\<exists>kexs' \<in> set (h_examples st). x \<in> set (snd kexs'))) \<and>
     (\<forall>v \<in> set (h_trimmed st'). v \<in> set (h_trimmed st) \<or> (\<exists>a. v = Ref a \<and> length h \<le> a))"
proof (induction dets arbitrary: h st)
  case Nil
  then show ?case by auto
next
  case (Cons det dets)
  from Cons.prems obtain h1 st1 where p: "h_process_detector h st det = Inr (h1, st1)"
    and r: "h_aggregate h1 st1 dets = Inr (h', st')"
    by (auto split: sum.splits)
  have l: "length h \<le> length h1"
    using extends_process_detector [OF extends_refl p] by (rule extends_length)
  note a = h_process_detector_lists [OF p] and b = Cons.IH [OF r]
  have "\<forall>kexs \<in> set (h_examples st'). \<forall>x \<in> set (snd kexs).
        x \<in> set (det # dets) \<or> (\<exists>kexs' \<in> set (h_examples st). x \<in> set (snd kexs'))"
  proof (intro ballI)
    fix kexs x assume m: "kexs \<in> set (h_examples st')" "x \<in> set (snd kexs)"
    with b have "x \<in> set dets \<or> (\<exists>kexs' \<in> set (h_examples st1). x \<in> set (snd kexs'))" by blast
    then show "x \<in> set (det # dets) \<or> (\<exists>kexs' \<in> set (h_examples st). x \<in> set (snd kexs'))"
      using a by auto
  qed
  moreover have "\<forall>v \<in> set (h_trimmed st'). v \<in> set (h_trimmed st) \<or> (\<exists>a. v = Ref a \<and> length h \<le> a)"
  proof
    fix v assume "v \<in> set (h_trimmed st')"
    with b have "v \<in> set (h_trimmed st1) \<or> (\<exists>a. v = Ref a \<and> length h1 \<le> a)" by blast
    then show "v \<in> set (h_trimmed st) \<or> (\<exists>a. v = Ref a \<and> length h \<le> a)"
      using a l by auto
  qed
  ultimately show ?case by blast
qed

text \<open>
  C10. The pass over the findings changes no object that was there before it: the heap
  after the pass is the heap before it with new objects added, so the input document,
  every finding and everything below a finding read as they did, lines included. All
  writes go to the copies. The representatives kept for the summary are the findings of
  the input themselves, and every trimmed finding is an object made by the pass.
\<close>

theorem trimming_frame:
  assumes "h_aggregate h \<lparr>h_examples = [], h_trimmed = []\<rparr> dets = Inr (h', st')"
  shows "extends h h' \<and>
         (\<forall>a < length h. h' ! a = h ! a) \<and>
         (\<forall>n v j. reify n h v = Some j \<longrightarrow> reify n h' v = Some j) \<and>
         (\<forall>kexs \<in> set (h_examples st'). set (snd kexs) \<subseteq> set dets) \<and>
         (\<forall>v \<in> set (h_trimmed st'). \<exists>a. v = Ref a \<and> length h \<le> a)"
proof -
  have e: "extends h h'"
    using extends_refl assms by (rule extends_aggregate)
  have n: "\<forall>a < length h. h' ! a = h ! a"
    using e by (simp add: extends_nth)
  have r: "\<forall>n v j. reify n h v = Some j \<longrightarrow> reify n h' v = Some j"
    using e by (simp add: reify_extends)
  from h_aggregate_lists [OF assms]
  have x: "\<forall>kexs \<in> set (h_examples st'). set (snd kexs) \<subseteq> set dets"
    and t: "\<forall>v \<in> set (h_trimmed st'). \<exists>a. v = Ref a \<and> length h \<le> a"
    by auto
  from e n r x t show ?thesis by blast
qed

theorem trimming_frame_witness:
  "\<exists>h' st'.
     h_aggregate (snd (store (JDict [(JStr ''check'', JStr ''a''),
            (JStr ''elements'', JList [JDict [(JStr ''source_mapping'',
               JDict [(JStr ''lines'', JList [JInt 1, JInt 2, JInt 3, JInt 4, JInt 5, JInt 6,
                 JInt 7, JInt 8, JInt 9, JInt 10, JInt 11, JInt 12])])]])]) [])) \<lparr>h_examples = [], h_trimmed = []\<rparr>
       [fst (store (JDict [(JStr ''check'', JStr ''a''),
            (JStr ''elements'', JList [JDict [(JStr ''source_mapping'',
               JDict [(JStr ''lines'', JList [JInt 1, JInt 2, JInt 3, JInt 4, JInt 5, JInt 6,
                 JInt 7, JInt 8, JInt 9, JInt 10, JInt 11, JInt 12])])]])]) [])] = Inr (h', st') \<and>
     extends (snd (store (JDict [(JStr ''check'', JStr ''a''),
            (JStr ''elements'', JList [JDict [(JStr ''source_mapping'',
               JDict [(JStr ''lines'', JList [JInt 1, JInt 2, JInt 3, JInt 4, JInt 5, JInt 6,
                 JInt 7, JInt 8, JInt 9, JInt 10, JInt 11, JInt 12])])]])]) [])) h' \<and>
     reify 5 h' (fst (store (JDict [(JStr ''check'', JStr ''a''),
            (JStr ''elements'', JList [JDict [(JStr ''source_mapping'',
               JDict [(JStr ''lines'', JList [JInt 1, JInt 2, JInt 3, JInt 4, JInt 5, JInt 6,
                 JInt 7, JInt 8, JInt 9, JInt 10, JInt 11, JInt 12])])]])]) [])) = Some (JDict [(JStr ''check'', JStr ''a''),
            (JStr ''elements'', JList [JDict [(JStr ''source_mapping'',
               JDict [(JStr ''lines'', JList [JInt 1, JInt 2, JInt 3, JInt 4, JInt 5, JInt 6,
                 JInt 7, JInt 8, JInt 9, JInt 10, JInt 11, JInt 12])])]])]) \<and>
     h_examples st' = [(JStr ''a'', [fst (store (JDict [(JStr ''check'', JStr ''a''),
            (JStr ''elements'', JList [JDict [(JStr ''source_mapping'',
               JDict [(JStr ''lines'', JList [JInt 1, JInt 2, JInt 3, JInt 4, JInt 5, JInt 6,
                 JInt 7, JInt 8, JInt 9, JInt 10, JInt 11, JInt 12])])]])]) [])])] \<and>
     map (reify 6 h') (h_trimmed st') = [Some (JDict [(JStr ''check'', JStr ''a''),
            (JStr ''elements'', JList [JDict [(JStr ''source_mapping'',
               JDict [(JStr ''lines'', JDict [(JStr ''count'', JInt 12),
                  (JStr ''first'', JList [JInt 1, JInt 2, JInt 3, JInt 4, JInt 5]),
                  (JStr ''last'', JList [JInt 8, JInt 9, JInt 10, JInt 11, JInt 12])])])]])])]"
proof -
  have "\<not> isl (h_aggregate (snd (store (JDict [(JStr ''check'', JStr ''a''),
            (JStr ''elements'', JList [JDict [(JStr ''source_mapping'',
               JDict [(JStr ''lines'', JList [JInt 1, JInt 2, JInt 3, JInt 4, JInt 5, JInt 6,
                 JInt 7, JInt 8, JInt 9, JInt 10, JInt 11, JInt 12])])]])]) [])) \<lparr>h_examples = [], h_trimmed = []\<rparr>
       [fst (store (JDict [(JStr ''check'', JStr ''a''),
            (JStr ''elements'', JList [JDict [(JStr ''source_mapping'',
               JDict [(JStr ''lines'', JList [JInt 1, JInt 2, JInt 3, JInt 4, JInt 5, JInt 6,
                 JInt 7, JInt 8, JInt 9, JInt 10, JInt 11, JInt 12])])]])]) [])])"
    by code_simp
  then obtain h' st' where
    r: "h_aggregate (snd (store (JDict [(JStr ''check'', JStr ''a''),
            (JStr ''elements'', JList [JDict [(JStr ''source_mapping'',
               JDict [(JStr ''lines'', JList [JInt 1, JInt 2, JInt 3, JInt 4, JInt 5, JInt 6,
                 JInt 7, JInt 8, JInt 9, JInt 10, JInt 11, JInt 12])])]])]) [])) \<lparr>h_examples = [], h_trimmed = []\<rparr>
       [fst (store (JDict [(JStr ''check'', JStr ''a''),
            (JStr ''elements'', JList [JDict [(JStr ''source_mapping'',
               JDict [(JStr ''lines'', JList [JInt 1, JInt 2, JInt 3, JInt 4, JInt 5, JInt 6,
                 JInt 7, JInt 8, JInt 9, JInt 10, JInt 11, JInt 12])])]])]) [])] = Inr (h', st')"
    by (cases "h_aggregate (snd (store (JDict [(JStr ''check'', JStr ''a''),
            (JStr ''elements'', JList [JDict [(JStr ''source_mapping'',
               JDict [(JStr ''lines'', JList [JInt 1, JInt 2, JInt 3, JInt 4, JInt 5, JInt 6,
                 JInt 7, JInt 8, JInt 9, JInt 10, JInt 11, JInt 12])])]])]) [])) \<lparr>h_examples = [], h_trimmed = []\<rparr>
       [fst (store (JDict [(JStr ''check'', JStr ''a''),
            (JStr ''elements'', JList [JDict [(JStr ''source_mapping'',
               JDict [(JStr ''lines'', JList [JInt 1, JInt 2, JInt 3, JInt 4, JInt 5, JInt 6,
                 JInt 7, JInt 8, JInt 9, JInt 10, JInt 11, JInt 12])])]])]) [])]") auto
  have o: "reify 5 (snd (store (JDict [(JStr ''check'', JStr ''a''),
            (JStr ''elements'', JList [JDict [(JStr ''source_mapping'',
               JDict [(JStr ''lines'', JList [JInt 1, JInt 2, JInt 3, JInt 4, JInt 5, JInt 6,
                 JInt 7, JInt 8, JInt 9, JInt 10, JInt 11, JInt 12])])]])]) [])) (fst (store (JDict [(JStr ''check'', JStr ''a''),
            (JStr ''elements'', JList [JDict [(JStr ''source_mapping'',
               JDict [(JStr ''lines'', JList [JInt 1, JInt 2, JInt 3, JInt 4, JInt 5, JInt 6,
                 JInt 7, JInt 8, JInt 9, JInt 10, JInt 11, JInt 12])])]])]) [])) = Some (JDict [(JStr ''check'', JStr ''a''),
            (JStr ''elements'', JList [JDict [(JStr ''source_mapping'',
               JDict [(JStr ''lines'', JList [JInt 1, JInt 2, JInt 3, JInt 4, JInt 5, JInt 6,
                 JInt 7, JInt 8, JInt 9, JInt 10, JInt 11, JInt 12])])]])])"
    by code_simp
  have v: "map_sum id (\<lambda>p. (h_examples (snd p), map (reify 6 (fst p)) (h_trimmed (snd p))))
       (h_aggregate (snd (store (JDict [(JStr ''check'', JStr ''a''),
            (JStr ''elements'', JList [JDict [(JStr ''source_mapping'',
               JDict [(JStr ''lines'', JList [JInt 1, JInt 2, JInt 3, JInt 4, JInt 5, JInt 6,
                 JInt 7, JInt 8, JInt 9, JInt 10, JInt 11, JInt 12])])]])]) [])) \<lparr>h_examples = [], h_trimmed = []\<rparr>
         [fst (store (JDict [(JStr ''check'', JStr ''a''),
            (JStr ''elements'', JList [JDict [(JStr ''source_mapping'',
               JDict [(JStr ''lines'', JList [JInt 1, JInt 2, JInt 3, JInt 4, JInt 5, JInt 6,
                 JInt 7, JInt 8, JInt 9, JInt 10, JInt 11, JInt 12])])]])]) [])])
     = Inr ([(JStr ''a'', [fst (store (JDict [(JStr ''check'', JStr ''a''),
            (JStr ''elements'', JList [JDict [(JStr ''source_mapping'',
               JDict [(JStr ''lines'', JList [JInt 1, JInt 2, JInt 3, JInt 4, JInt 5, JInt 6,
                 JInt 7, JInt 8, JInt 9, JInt 10, JInt 11, JInt 12])])]])]) [])])], [Some (JDict [(JStr ''check'', JStr ''a''),
            (JStr ''elements'', JList [JDict [(JStr ''source_mapping'',
               JDict [(JStr ''lines'', JDict [(JStr ''count'', JInt 12),
                  (JStr ''first'', JList [JInt 1, JInt 2, JInt 3, JInt 4, JInt 5]),
                  (JStr ''last'', JList [JInt 8, JInt 9, JInt 10, JInt 11, JInt 12])])])]])])])"
    by code_simp
  from v r have x: "h_examples st' = [(JStr ''a'', [fst (store (JDict [(JStr ''check'', JStr ''a''),
            (JStr ''elements'', JList [JDict [(JStr ''source_mapping'',
               JDict [(JStr ''lines'', JList [JInt 1, JInt 2, JInt 3, JInt 4, JInt 5, JInt 6,
                 JInt 7, JInt 8, JInt 9, JInt 10, JInt 11, JInt 12])])]])]) [])])]"
    and t: "map (reify 6 h') (h_trimmed st') = [Some (JDict [(JStr ''check'', JStr ''a''),
            (JStr ''elements'', JList [JDict [(JStr ''source_mapping'',
               JDict [(JStr ''lines'', JDict [(JStr ''count'', JInt 12),
                  (JStr ''first'', JList [JInt 1, JInt 2, JInt 3, JInt 4, JInt 5]),
                  (JStr ''last'', JList [JInt 8, JInt 9, JInt 10, JInt 11, JInt 12])])])]])])]"
    by simp_all
  from trimming_frame [OF r] o have e: "extends (snd (store (JDict [(JStr ''check'', JStr ''a''),
            (JStr ''elements'', JList [JDict [(JStr ''source_mapping'',
               JDict [(JStr ''lines'', JList [JInt 1, JInt 2, JInt 3, JInt 4, JInt 5, JInt 6,
                 JInt 7, JInt 8, JInt 9, JInt 10, JInt 11, JInt 12])])]])]) [])) h'"
    and q: "reify 5 h' (fst (store (JDict [(JStr ''check'', JStr ''a''),
            (JStr ''elements'', JList [JDict [(JStr ''source_mapping'',
               JDict [(JStr ''lines'', JList [JInt 1, JInt 2, JInt 3, JInt 4, JInt 5, JInt 6,
                 JInt 7, JInt 8, JInt 9, JInt 10, JInt 11, JInt 12])])]])]) [])) = Some (JDict [(JStr ''check'', JStr ''a''),
            (JStr ''elements'', JList [JDict [(JStr ''source_mapping'',
               JDict [(JStr ''lines'', JList [JInt 1, JInt 2, JInt 3, JInt 4, JInt 5, JInt 6,
                 JInt 7, JInt 8, JInt 9, JInt 10, JInt 11, JInt 12])])]])])"
    by blast+
  show ?thesis
    apply (rule exI [of _ h'])
    apply (rule exI [of _ st'])
    apply (intro conjI)
        apply (rule r)
       apply (rule e)
      apply (rule q)
     apply (rule x)
    apply (rule t)
    done
qed

subsection \<open>Documents that are not a mapping\<close>

text \<open>
  Only a dict has \<^verbatim>\<open>get\<close>: on any other document line 30 raises before the loader
  resolves anything, and the run ends with the exception, status 1 and no output file.
\<close>

lemma non_mapping_document:
  "\<not> is_dict data \<Longrightarrow> main repr (Parsed data) = crash AttributeError"
  by (cases data) (simp_all add: main_def load_detectors_def)

subsection \<open>The two models on an example\<close>

text \<open>
  Three findings, with a long and a short list of lines, an element given as a list of
  pairs, an empty string as element, a dict where the elements should be, and the checks
  \<open>1\<close> and \<^verbatim>\<open>True\<close>, which are one category: the pass on the heap, read back, gives
  the trimmed findings and the representatives that the pass on values gives.
\<close>

lemma heap_pass_example:
  "(case store (JList
       [JDict [(JStr ''check'', JStr ''a''),
               (JStr ''elements'', JList
                  [JDict [(JStr ''source_mapping'', JDict [(JStr ''lines'',
                             JList [JInt 1, JInt 2, JInt 3, JInt 4, JInt 5, JInt 6, JInt 7,
                                    JInt 8, JInt 9, JInt 10, JInt 11])]),
                          (JStr ''type_specific_fields'', JDict [(JStr ''parent'',
                             JDict [(JStr ''source_mapping'',
                                JDict [(JStr ''lines'', JList [JInt 7])])])])],
                   JList [JList [JStr ''source_mapping'', JDict [(JStr ''lines'', JNull)]]],
                   JStr []])],
        JDict [(JStr ''check'', JInt 1), (JStr ''elements'', JDict [])],
        JDict [(JStr ''check'', JBool True)]]) [] of
      (v, h) \<Rightarrow>
        (case h_iter h v of
           Inl err \<Rightarrow> []
         | Inr dets \<Rightarrow>
             (case h_aggregate h \<lparr>h_examples = [], h_trimmed = []\<rparr> dets of
                Inl err \<Rightarrow> []
              | Inr (h', st') \<Rightarrow>
                  map (reify 8 h') (h_trimmed st') @
                  map (\<lambda>kexs. Some (JList (fst kexs # map (\<lambda>x. the (reify 8 h' x)) (snd kexs))))
                    (h_examples st'))))
   = (case aggregate init_agg
       [JDict [(JStr ''check'', JStr ''a''),
               (JStr ''elements'', JList
                  [JDict [(JStr ''source_mapping'', JDict [(JStr ''lines'',
                             JList [JInt 1, JInt 2, JInt 3, JInt 4, JInt 5, JInt 6, JInt 7,
                                    JInt 8, JInt 9, JInt 10, JInt 11])]),
                          (JStr ''type_specific_fields'', JDict [(JStr ''parent'',
                             JDict [(JStr ''source_mapping'',
                                JDict [(JStr ''lines'', JList [JInt 7])])])])],
                   JList [JList [JStr ''source_mapping'', JDict [(JStr ''lines'', JNull)]]],
                   JStr []])],
        JDict [(JStr ''check'', JInt 1), (JStr ''elements'', JDict [])],
        JDict [(JStr ''check'', JBool True)]] of
        Inl err \<Rightarrow> [None]
      | Inr st \<Rightarrow>
          map Some (trimmed_detectors st) @
          map (\<lambda>kexs. Some (JList (fst kexs # snd kexs))) (top_examples st))"
  by code_simp

subsection \<open>Trimming twice\<close>

lemma dset_not_Nil [simp]: "dset k v m \<noteq> []"
  by (cases m) (auto split: if_splits)

lemma summarize_lines_twice: "summarize_lines (summarize_lines v) = summarize_lines v"
  by (cases v) (simp_all add: Let_def)

lemma summarize_lines_Null: "summarize_lines v = JNull \<longleftrightarrow> v = JNull"
  by (cases v) (simp_all add: Let_def)

lemma py_get_dset: "py_get k (dset (JStr k') v m) = (if k = k' then v else py_get k m)"
  by (simp add: py_get_def dget_dset)

lemma trim_source_mapping_cases:
  "trim_source_mapping e = e \<or>
   (\<exists>sm. py_get ''source_mapping'' e = JDict sm \<and> py_get ''lines'' sm \<noteq> JNull \<and>
      trim_source_mapping e = dset (JStr ''source_mapping'')
         (JDict (dset (JStr ''lines'') (summarize_lines (py_get ''lines'' sm)) sm)) e)"
  by (cases "py_get ''source_mapping'' e") (auto simp: trim_source_mapping_def Let_def)

lemma trim_source_mapping_fixed:
  assumes "py_get ''source_mapping'' b = JDict sm'"
    "sm' = dset (JStr ''lines'') (summarize_lines l) sm" "l \<noteq> JNull"
    "dget (JStr ''source_mapping'') b = Some (JDict sm')"
  shows "trim_source_mapping b = b"
proof -
  have l: "py_get ''lines'' sm' = summarize_lines l"
    by (simp add: assms(2) py_get_dset)
  have n: "summarize_lines l \<noteq> JNull"
    using assms(3) by (simp add: summarize_lines_Null)
  have "dset (JStr ''lines'') (summarize_lines (summarize_lines l)) sm' = sm'"
    by (simp add: assms(2) summarize_lines_twice dset_dset)
  then show ?thesis
    using assms(1,4) l n by (simp add: trim_source_mapping_def Let_def dset_same)
qed

lemma trim_source_mapping_idem:
  "trim_source_mapping (trim_source_mapping e) = trim_source_mapping e"
proof -
  from trim_source_mapping_cases [of e] show ?thesis
  proof
    assume "trim_source_mapping e = e"
    then show ?thesis by simp
  next
    assume "\<exists>sm. py_get ''source_mapping'' e = JDict sm \<and> py_get ''lines'' sm \<noteq> JNull \<and>
      trim_source_mapping e = dset (JStr ''source_mapping'')
         (JDict (dset (JStr ''lines'') (summarize_lines (py_get ''lines'' sm)) sm)) e"
    then obtain sm where s: "py_get ''lines'' sm \<noteq> JNull"
      "trim_source_mapping e = dset (JStr ''source_mapping'')
         (JDict (dset (JStr ''lines'') (summarize_lines (py_get ''lines'' sm)) sm)) e"
      by blast
    show ?thesis
      unfolding s(2)
      by (rule trim_source_mapping_fixed [OF _ refl s(1)]) (simp_all add: py_get_dset dget_dset)
  qed
qed

lemma trim_parent_cases:
  "trim_parent e = e \<or>
   (\<exists>tsf parent psm. py_get ''type_specific_fields'' e = JDict tsf \<and>
      py_get ''parent'' tsf = JDict parent \<and> py_get ''source_mapping'' parent = JDict psm \<and>
      dget (JStr ''lines'') psm \<noteq> None \<and>
      trim_parent e = dset (JStr ''type_specific_fields'')
        (JDict (dset (JStr ''parent'')
           (JDict (dset (JStr ''source_mapping'')
              (JDict (dset (JStr ''lines'') (summarize_lines (py_get ''lines'' psm)) psm))
              parent)) tsf)) e)"
proof (cases "py_or (py_get ''type_specific_fields'' e) (JDict [])")
  case (JDict tsf)
  show ?thesis
  proof (cases "truthy (py_get ''type_specific_fields'' e)")
    case True
    with JDict have t: "py_get ''type_specific_fields'' e = JDict tsf"
      by (simp add: py_or_def)
    show ?thesis
    proof (cases "py_get ''parent'' tsf")
      case p: (JDict parent)
      show ?thesis
      proof (cases "py_get ''source_mapping'' parent")
        case s: (JDict psm)
        show ?thesis
          using JDict t p s by (simp add: trim_parent_def Let_def)
      qed (use JDict p in \<open>simp_all add: trim_parent_def\<close>)
    qed (use JDict in \<open>simp_all add: trim_parent_def\<close>)
  next
    case False
    with JDict have "tsf = []" by (simp add: py_or_def)
    with JDict show ?thesis by (simp add: trim_parent_def py_get_def)
  qed
qed (simp_all add: trim_parent_def)

lemma trim_parent_idem: "trim_parent (trim_parent e) = trim_parent e"
proof -
  from trim_parent_cases [of e] show ?thesis
  proof
    assume "trim_parent e = e"
    then show ?thesis by simp
  next
    assume "\<exists>tsf parent psm. py_get ''type_specific_fields'' e = JDict tsf \<and>
      py_get ''parent'' tsf = JDict parent \<and> py_get ''source_mapping'' parent = JDict psm \<and>
      dget (JStr ''lines'') psm \<noteq> None \<and>
      trim_parent e = dset (JStr ''type_specific_fields'')
        (JDict (dset (JStr ''parent'')
           (JDict (dset (JStr ''source_mapping'')
              (JDict (dset (JStr ''lines'') (summarize_lines (py_get ''lines'' psm)) psm))
              parent)) tsf)) e"
    then obtain tsf parent psm where
      r: "trim_parent e = dset (JStr ''type_specific_fields'')
        (JDict (dset (JStr ''parent'')
           (JDict (dset (JStr ''source_mapping'')
              (JDict (dset (JStr ''lines'') (summarize_lines (py_get ''lines'' psm)) psm))
              parent)) tsf)) e"
      by blast
    define psm' where "psm' = dset (JStr ''lines'') (summarize_lines (py_get ''lines'' psm)) psm"
    define parent' where "parent' = dset (JStr ''source_mapping'') (JDict psm') parent"
    define tsf' where "tsf' = dset (JStr ''parent'') (JDict parent') tsf"
    have r': "trim_parent e = dset (JStr ''type_specific_fields'') (JDict tsf') e"
      by (simp add: r tsf'_def parent'_def psm'_def)
    have a: "py_or (py_get ''type_specific_fields'' (dset (JStr ''type_specific_fields'') (JDict tsf') e))
               (JDict []) = JDict tsf'"
      by (simp add: py_get_dset py_or_def tsf'_def)
    have b: "py_get ''parent'' tsf' = JDict parent'"
      by (simp add: tsf'_def py_get_dset)
    have c: "py_get ''source_mapping'' parent' = JDict psm'"
      by (simp add: parent'_def py_get_dset)
    have d: "dget (JStr ''lines'') psm' \<noteq> None"
      by (simp add: psm'_def dget_dset)
    have l: "py_get ''lines'' psm' = summarize_lines (py_get ''lines'' psm)"
      by (simp add: psm'_def py_get_dset)
    have p1: "dset (JStr ''lines'') (summarize_lines (py_get ''lines'' psm')) psm' = psm'"
      by (simp add: l summarize_lines_twice) (simp add: psm'_def dset_dset)
    have p2: "dset (JStr ''source_mapping'') (JDict psm') parent' = parent'"
      by (simp add: parent'_def dset_dset)
    have p3: "dset (JStr ''parent'') (JDict parent') tsf' = tsf'"
      by (simp add: tsf'_def dset_dset)
    show ?thesis
      unfolding r'
      apply (subst trim_parent_def)
      apply (simp add: a b c d Let_def p1 p2 p3 dset_dset)
      done
  qed
qed

lemma trim_source_mapping_frame:
  assumes "trim_source_mapping a = a"
  shows "trim_source_mapping (dset (JStr ''type_specific_fields'') x a)
           = dset (JStr ''type_specific_fields'') x a"
proof -
  let ?b = "dset (JStr ''type_specific_fields'') x a"
  have g: "py_get ''source_mapping'' ?b = py_get ''source_mapping'' a"
    by (simp add: py_get_dset)
  from trim_source_mapping_cases [of a] show ?thesis
  proof
    assume "\<exists>sm. py_get ''source_mapping'' a = JDict sm \<and> py_get ''lines'' sm \<noteq> JNull \<and>
      trim_source_mapping a = dset (JStr ''source_mapping'')
         (JDict (dset (JStr ''lines'') (summarize_lines (py_get ''lines'' sm)) sm)) a"
    then obtain sm where s: "py_get ''source_mapping'' a = JDict sm" "py_get ''lines'' sm \<noteq> JNull"
      "trim_source_mapping a = dset (JStr ''source_mapping'')
         (JDict (dset (JStr ''lines'') (summarize_lines (py_get ''lines'' sm)) sm)) a"
      by blast
    define y where "y = JDict (dset (JStr ''lines'') (summarize_lines (py_get ''lines'' sm)) sm)"
    have "dget (JStr ''source_mapping'') (dset (JStr ''source_mapping'') y a) = Some y"
      by (simp add: dget_dset)
    then have "dget (JStr ''source_mapping'') a = Some y"
      using s(3) assms by (simp add: y_def)
    then have "dget (JStr ''source_mapping'') ?b = Some y"
      by (simp add: dget_dset)
    then have "dset (JStr ''source_mapping'') y ?b = ?b"
      by (rule dset_same)
    then show ?thesis
      using s(1,2) g by (simp add: trim_source_mapping_def Let_def y_def)
  next
    assume "trim_source_mapping a = a"
    show ?thesis
    proof (cases "py_get ''source_mapping'' a")
      case (JDict sm)
      show ?thesis
      proof (cases "py_get ''lines'' sm = JNull")
        case True
        with JDict g show ?thesis by (simp add: trim_source_mapping_def)
      next
        case False
        define y where "y = JDict (dset (JStr ''lines'') (summarize_lines (py_get ''lines'' sm)) sm)"
        have t: "trim_source_mapping a = dset (JStr ''source_mapping'') y a"
          using JDict False by (simp add: trim_source_mapping_def y_def)
        have "dget (JStr ''source_mapping'') (dset (JStr ''source_mapping'') y a) = Some y"
          by (simp add: dget_dset)
        then have "dget (JStr ''source_mapping'') a = Some y"
          using t assms by simp
        then have "dget (JStr ''source_mapping'') ?b = Some y"
          by (simp add: dget_dset)
        then have "dset (JStr ''source_mapping'') y ?b = ?b"
          by (rule dset_same)
        then show ?thesis
          using JDict False g by (simp add: trim_source_mapping_def Let_def y_def)
      qed
    qed (use g in \<open>simp_all add: trim_source_mapping_def\<close>)
  qed
qed

lemma trim_both_idem:
  "trim_parent (trim_source_mapping (trim_parent (trim_source_mapping e)))
     = trim_parent (trim_source_mapping e)"
proof -
  define a where "a = trim_source_mapping e"
  have fa: "trim_source_mapping a = a"
    by (simp add: a_def trim_source_mapping_idem)
  have "trim_source_mapping (trim_parent a) = trim_parent a"
  proof -
    from trim_parent_cases [of a] show ?thesis
    proof
      assume "trim_parent a = a"
      with fa show ?thesis by simp
    next
      assume "\<exists>tsf parent psm. py_get ''type_specific_fields'' a = JDict tsf \<and>
        py_get ''parent'' tsf = JDict parent \<and> py_get ''source_mapping'' parent = JDict psm \<and>
        dget (JStr ''lines'') psm \<noteq> None \<and>
        trim_parent a = dset (JStr ''type_specific_fields'')
          (JDict (dset (JStr ''parent'')
             (JDict (dset (JStr ''source_mapping'')
                (JDict (dset (JStr ''lines'') (summarize_lines (py_get ''lines'' psm)) psm))
                parent)) tsf)) a"
      then obtain x where "trim_parent a = dset (JStr ''type_specific_fields'') x a"
        by blast
      with trim_source_mapping_frame [OF fa, of x] show ?thesis by simp
    qed
  qed
  then show ?thesis
    by (simp add: a_def [symmetric] trim_parent_idem)
qed

lemma trim_element_idem:
  assumes "trim_element e = Inr t"
  shows "trim_element t = Inr t"
proof -
  from assms obtain ec where "py_dict e = Inr ec"
    and t: "t = JDict (trim_parent (trim_source_mapping ec))"
    by (auto simp: trim_element_def split: sum.splits)
  show ?thesis
    by (simp add: t trim_element_def trim_both_idem)
qed

lemma trim_elements_result:
  "trim_elements acc es = Inr r \<Longrightarrow>
     \<exists>ts. r = acc @ ts \<and> list_all2 (\<lambda>e t. trim_element e = Inr t) es ts"
proof (induction es arbitrary: acc)
  case Nil
  then show ?case by simp
next
  case (Cons e es)
  from Cons.prems obtain t where t: "trim_element e = Inr t"
    and r: "trim_elements (acc @ [t]) es = Inr r"
    by (auto split: sum.splits)
  from Cons.IH [OF r] obtain ts where "r = (acc @ [t]) @ ts"
    "list_all2 (\<lambda>e t. trim_element e = Inr t) es ts" by blast
  with t have "r = acc @ (t # ts) \<and> list_all2 (\<lambda>e t. trim_element e = Inr t) (e # es) (t # ts)"
    by simp
  then show ?case by blast
qed

lemma trim_elements_fixed:
  "\<forall>t \<in> set ts. trim_element t = Inr t \<Longrightarrow> trim_elements acc ts = Inr (acc @ ts)"
  by (induction ts arbitrary: acc) simp_all

lemma trim_detector_idem:
  assumes "trim_detector d = Inr t"
  shows "\<exists>d'. t = JDict d' \<and> trim_detector d' = Inr t"
proof -
  from assms obtain es new where
    n: "trim_elements [] es = Inr new"
    and t: "t = JDict (dset (JStr ''elements'') (JList new) d)"
    by (auto simp: trim_detector_def Let_def split: sum.splits)
  from trim_elements_result [OF n] have "list_all2 (\<lambda>e t. trim_element e = Inr t) es new"
    by simp
  then have "\<forall>t \<in> set new. trim_element t = Inr t"
  proof (intro ballI)
    fix x assume l: "list_all2 (\<lambda>e t. trim_element e = Inr t) es new" and "x \<in> set new"
    then obtain i where i: "i < length new" "new ! i = x"
      by (auto simp: in_set_conv_nth)
    from l i(1) have "trim_element (es ! i) = Inr (new ! i)"
      by (rule list_all2_nthD2)
    then show "trim_element x = Inr x"
      using i(2) trim_element_idem by simp
  qed
  then have f: "trim_elements [] new = Inr new"
    using trim_elements_fixed [of new "[]"] by simp
  let ?d' = "dset (JStr ''elements'') (JList new) d"
  have g: "py_or (py_get ''elements'' ?d') (JList []) = JList new"
    by (simp add: py_get_dset py_or_def)
  have "trim_detector ?d' = Inr (JDict ?d')"
    by (simp add: trim_detector_def g f dset_dset)
  with t show ?thesis by blast
qed

lemma trimmed_of_idem:
  assumes "trimmed_of det t"
  shows "trimmed_of t t"
proof -
  from assms obtain d where "trim_detector d = Inr t"
    by (cases det) (simp_all add: trimmed_of_def)
  from trim_detector_idem [OF this] obtain d' where "t = JDict d'" "trim_detector d' = Inr t"
    by blast
  then show ?thesis by (simp add: trimmed_of_def)
qed

text \<open>
  C6. A lines value that is not a raw list, such as a summary already made, comes back from
  the trim operation as it is; the operation changes a value only when it is a raw list,
  and then always; so trimming twice is trimming once, for a lines value and for a whole
  finding: the trimmed copy of a finding is its own trimmed copy.
\<close>

theorem summarize_lines_idempotent:
  "(\<not> is_list v \<longrightarrow> summarize_lines v = v) \<and>
   (summarize_lines v \<noteq> v \<longrightarrow> is_list v) \<and>
   (is_list v \<longrightarrow> summarize_lines v \<noteq> v) \<and>
   summarize_lines (summarize_lines v) = summarize_lines v \<and>
   (trimmed_of det t \<longrightarrow> trimmed_of t t)"
proof -
  have "(\<not> is_list v \<longrightarrow> summarize_lines v = v) \<and>
   (summarize_lines v \<noteq> v \<longrightarrow> is_list v) \<and>
   (is_list v \<longrightarrow> summarize_lines v \<noteq> v) \<and>
   summarize_lines (summarize_lines v) = summarize_lines v"
  proof (cases v)
    case (JList xs)
    then show ?thesis by (simp add: Let_def)
  qed simp_all
  then show ?thesis using trimmed_of_idem by blast
qed

theorem summarize_lines_idempotent_witness:
  "summarize_lines (JDict [(JStr ''count'', JInt 2), (JStr ''lines_preview'', JList [JInt 4, JInt 5])])
     = JDict [(JStr ''count'', JInt 2), (JStr ''lines_preview'', JList [JInt 4, JInt 5])] \<and>
   summarize_lines (JList [JInt 4, JInt 5]) \<noteq> JList [JInt 4, JInt 5] \<and>
   trimmed_of (JDict [(JStr ''elements'', JList [JDict [(JStr ''source_mapping'',
            JDict [(JStr ''lines'', JList [JInt 4, JInt 5])])]])])
     (JDict [(JStr ''elements'', JList [JDict [(JStr ''source_mapping'',
            JDict [(JStr ''lines'', JDict [(JStr ''count'', JInt 2),
               (JStr ''lines_preview'', JList [JInt 4, JInt 5])])])]])]) \<and>
   trimmed_of (JDict [(JStr ''elements'', JList [JDict [(JStr ''source_mapping'',
            JDict [(JStr ''lines'', JDict [(JStr ''count'', JInt 2),
               (JStr ''lines_preview'', JList [JInt 4, JInt 5])])])]])])
     (JDict [(JStr ''elements'', JList [JDict [(JStr ''source_mapping'',
            JDict [(JStr ''lines'', JDict [(JStr ''count'', JInt 2),
               (JStr ''lines_preview'', JList [JInt 4, JInt 5])])])]])])"
proof -
  have h: "trimmed_of (JDict [(JStr ''elements'', JList [JDict [(JStr ''source_mapping'',
            JDict [(JStr ''lines'', JList [JInt 4, JInt 5])])]])])
     (JDict [(JStr ''elements'', JList [JDict [(JStr ''source_mapping'',
            JDict [(JStr ''lines'', JDict [(JStr ''count'', JInt 2),
               (JStr ''lines_preview'', JList [JInt 4, JInt 5])])])]])])"
    by code_simp
  show ?thesis
    using summarize_lines_idempotent
          [of "JDict [(JStr ''count'', JInt 2), (JStr ''lines_preview'', JList [JInt 4, JInt 5])]"
              "(JDict [(JStr ''elements'', JList [JDict [(JStr ''source_mapping'',
            JDict [(JStr ''lines'', JList [JInt 4, JInt 5])])]])])"
              "(JDict [(JStr ''elements'', JList [JDict [(JStr ''source_mapping'',
            JDict [(JStr ''lines'', JDict [(JStr ''count'', JInt 2),
               (JStr ''lines_preview'', JList [JInt 4, JInt 5])])])]])])"]
        summarize_lines_idempotent [of "JList [JInt 4, JInt 5]"
              "(JDict [(JStr ''elements'', JList [JDict [(JStr ''source_mapping'',
            JDict [(JStr ''lines'', JList [JInt 4, JInt 5])])]])])"
              "(JDict [(JStr ''elements'', JList [JDict [(JStr ''source_mapping'',
            JDict [(JStr ''lines'', JDict [(JStr ''count'', JInt 2),
               (JStr ''lines_preview'', JList [JInt 4, JInt 5])])])]])])"]
        h
    by simp
qed

end
